theory Spec2Isabelle
  imports Main "HOL-Library.Sublist"
begin

section \<open>The C library functions used by getfile.cpp\<close>

text \<open>
  A C string is modelled by the list of its characters before the terminating NUL;
  a pointer into a string is the suffix that starts there (\<open>p + n\<close> is \<open>drop n p\<close>).
\<close>

definition NUL :: char where
  "NUL = CHR 0x00"

definition CR :: char where
  "CR = CHR 0x0D"

definition LF :: char where
  "LF = CHR 0x0A"

definition crlf :: string where
  "crlf = [CR, LF]"

text \<open>\<open>isspace\<close> in the C locale: space, \<open>\t \n \v \f \r\<close>.\<close>

definition isspace :: "char \<Rightarrow> bool" where
  "isspace c = (c = CHR 0x20 \<or> c = CHR 0x09 \<or> c = CHR 0x0A \<or> c = CHR 0x0B
     \<or> c = CHR 0x0C \<or> c = CHR 0x0D)"

text \<open>The characters of a buffer read as a C string: up to the first NUL.\<close>

definition c_str :: "string \<Rightarrow> string" where
  "c_str buf = takeWhile (\<lambda>c. c \<noteq> NUL) buf"

definition strlen :: "string \<Rightarrow> nat" where
  "strlen s = length s"

text \<open>
  \<open>strncmp_eq a b n\<close> is \<open>strncmp(a, b, n) == 0\<close>: at most \<open>n\<close> characters are compared,
  and the comparison stops where both strings end.
\<close>

fun strncmp_eq :: "string \<Rightarrow> string \<Rightarrow> nat \<Rightarrow> bool" where
  "strncmp_eq a b 0 = True"
| "strncmp_eq [] [] (Suc n) = True"
| "strncmp_eq [] (y # ys) (Suc n) = False"
| "strncmp_eq (x # xs) [] (Suc n) = False"
| "strncmp_eq (x # xs) (y # ys) (Suc n) = (x = y \<and> strncmp_eq xs ys n)"

text \<open>
  \<open>strchr s c\<close> for \<open>c\<close> other than NUL: the offset of the first occurrence of \<open>c\<close>,
  \<open>None\<close> for the null pointer.
\<close>

fun strchr :: "string \<Rightarrow> char \<Rightarrow> nat option" where
  "strchr [] c = None"
| "strchr (x # xs) c = (if x = c then Some 0 else map_option Suc (strchr xs c))"

text \<open>
  \<open>scanf("%Ns", buf)\<close> on the pending standard input: white space is skipped, then at
  most \<open>N\<close> characters that are not white space are stored. \<open>None\<close> is the return value
  \<open>EOF\<close> (the input ended before a character was stored), otherwise one item was
  assigned and the result holds the characters stored.
\<close>

definition scanf_s :: "nat \<Rightarrow> string \<Rightarrow> string option" where
  "scanf_s N inp =
     (let tok = take N (takeWhile (\<lambda>c. \<not> isspace c) (dropWhile isspace inp))
      in if tok = [] then None else Some tok)"

text \<open>
  \<open>atoi\<close> as the C library on the Unix branch of the source provides it (glibc, LP64):
  \<open>(int) strtol(nptr, NULL, 10)\<close>. White space is skipped, one sign is read, then the
  decimal digits up to the first other character; a value outside \<open>long\<close> saturates,
  and the conversion to a 32-bit \<open>int\<close> keeps the low 32 bits. (ISO C leaves \<open>atoi\<close>
  undefined for a value that \<open>int\<close> cannot hold.)
\<close>

definition isdigit :: "char \<Rightarrow> bool" where
  "isdigit c = (48 \<le> (of_char c :: nat) \<and> (of_char c :: nat) \<le> 57)"

definition digit_val :: "char \<Rightarrow> nat" where
  "digit_val c = of_char c - 48"

fun atoi_digits :: "int \<Rightarrow> string \<Rightarrow> int" where
  "atoi_digits acc [] = acc"
| "atoi_digits acc (c # cs) =
     (if isdigit c then atoi_digits (10 * acc + int (digit_val c)) cs else acc)"

definition LONG_MAX :: int where
  "LONG_MAX = 2 ^ 63 - 1"

definition LONG_MIN :: int where
  "LONG_MIN = - (2 ^ 63)"

definition INT_MAX :: int where
  "INT_MAX = 2 ^ 31 - 1"

definition strtol :: "string \<Rightarrow> int" where
  "strtol nptr =
     (let s = dropWhile isspace nptr
      in case s of
           [] \<Rightarrow> 0
         | c # r \<Rightarrow>
             if c = CHR ''-'' then max LONG_MIN (- atoi_digits 0 r)
             else if c = CHR ''+'' then min LONG_MAX (atoi_digits 0 r)
             else min LONG_MAX (atoi_digits 0 s))"

definition int_of_long :: "int \<Rightarrow> int" where
  "int_of_long l = (l + 2 ^ 31) mod 2 ^ 32 - 2 ^ 31"

definition atoi :: "string \<Rightarrow> int" where
  "atoi nptr = int_of_long (strtol nptr)"

text \<open>
  \<open>snprintf(buf, n, ...)\<close> stores at most \<open>n - 1\<close> characters of the formatted
  text; the second argument here is the formatted text.
\<close>

definition snprintf :: "nat \<Rightarrow> string \<Rightarrow> string" where
  "snprintf n formatted = take (n - 1) formatted"

text \<open>\<open>printf("%d", n)\<close>: the decimal digits of \<open>n\<close>, after a minus sign when negative.\<close>

definition digit_char :: "nat \<Rightarrow> char" where
  "digit_char d = char_of (48 + d)"

function show_nat :: "nat \<Rightarrow> string" where
  "show_nat n =
     (if n < 10 then [digit_char n] else show_nat (n div 10) @ [digit_char (n mod 10)])"
  by pat_completeness auto
termination
  by (relation "measure id") auto

declare show_nat.simps [simp del]

definition show_int :: "int \<Rightarrow> string" where
  "show_int n = (if n < 0 then CHR ''-'' # show_nat (nat (- n)) else show_nat (nat n))"

section \<open>Step 4: parsing the URL\<close>

text \<open>
  \<open>host\<close> points behind a leading \<open>http://\<close>; the first \<open>/\<close> of \<open>host\<close> is overwritten
  by NUL and \<open>site\<close> points behind it; without a \<open>/\<close>, \<open>site\<close> points at the terminator.
\<close>

definition split_at :: "nat option \<Rightarrow> string \<Rightarrow> string \<times> string" where
  "split_at site host =
     (case site of
        Some i \<Rightarrow> (take i host, drop (Suc i) host)
      | None \<Rightarrow> (host, drop (strlen host) host))"

definition parse_url :: "string \<Rightarrow> string \<times> string" where
  "parse_url url =
     (let host = (if strncmp_eq ''http://'' url 7 then drop 7 url else url)
      in split_at (strchr host (CHR ''/'')) host)"

section \<open>Step 5: the \<open>http_proxy\<close> environment variable\<close>

record proxy =
  useProxy :: bool
  proxyHost :: string
  proxyPort :: int

text \<open>
  The argument is the result of \<open>getenv("http_proxy")\<close>, \<open>None\<close> for the null pointer.
  \<open>proxyHost\<close> and \<open>proxyPort\<close> are assigned as soon as a colon is found; \<open>useProxy\<close>
  is set only for a port above zero.
\<close>

definition proxy_resolver :: "string option \<Rightarrow> proxy" where
  "proxy_resolver proxy_env =
     (let none = \<lparr>useProxy = False, proxyHost = [], proxyPort = 0\<rparr>
      in case proxy_env of
           None \<Rightarrow> none
         | Some env \<Rightarrow>
             if strncmp_eq env ''http://'' 7 then
               (let p = drop 7 env
                in case strchr p (CHR '':'') of
                     None \<Rightarrow> none
                   | Some colon \<Rightarrow>
                       (let found = none\<lparr>proxyHost := take colon p,
                                          proxyPort := atoi (drop (Suc colon) p)\<rparr>
                        in if proxyPort found > 0 then found\<lparr>useProxy := True\<rparr>
                           else found))
             else none)"

section \<open>Step 6: the connect target\<close>

definition connect_target :: "proxy \<Rightarrow> string \<Rightarrow> string \<times> int" where
  "connect_target px host =
     (if useProxy px then (proxyHost px, proxyPort px) else (host, 80))"

section \<open>Step 10: the request\<close>

definition bufsz :: nat where
  "bufsz = 4096"

definition build_request :: "bool \<Rightarrow> string \<Rightarrow> string \<Rightarrow> string" where
  "build_request use_proxy host site =
     snprintf bufsz
       (if use_proxy then
          ''GET http://'' @ host @ ''/'' @ site @ '' HTTP/1.1'' @ crlf
          @ ''Host: '' @ host @ crlf
          @ ''Connection: close'' @ crlf
          @ crlf
        else
          ''GET /'' @ site @ '' HTTP/1.1'' @ crlf
          @ ''Host: '' @ host @ '':80'' @ crlf
          @ ''Connection: close'' @ crlf
          @ crlf)"

section \<open>The operating system as seen by one run\<close>

text \<open>
  An IPv4 address is its four octets in the order \<open>inet_ntoa\<close> prints them.
\<close>

type_synonym in_addr = "nat \<times> nat \<times> nat \<times> nat"

definition INADDR_NONE :: in_addr where
  "INADDR_NONE = (255, 255, 255, 255)"

definition inet_ntoa :: "in_addr \<Rightarrow> string" where
  "inet_ntoa a =
     (case a of (a1, a2, a3, a4) \<Rightarrow>
        show_nat a1 @ ''.'' @ show_nat a2 @ ''.'' @ show_nat a3 @ ''.'' @ show_nat a4)"

text \<open>\<open>htons\<close> takes its argument as a 16-bit value; the byte order is not modelled.\<close>

definition htons :: "int \<Rightarrow> nat" where
  "htons port = nat (port mod 65536)"

datatype syscall = Gethostbyname | Socket | Connect | Send | Recv

text \<open>
  What the connected stream delivers, in order: a segment of bytes, the orderly end of
  the stream, or a failure. A list that runs out stands for a peer that sends nothing
  more and never closes.
\<close>

datatype event = Bytes string | Eof | Error

text \<open>
  Everything outside the program that one run depends on: the pending standard input,
  the environment, the answers of the resolver and of the socket calls, and the value
  of \<open>errno\<close> that is read after a given call has failed.
\<close>

record os =
  os_stdin :: string
  os_getenv :: "string \<Rightarrow> string option"
  os_inet_addr :: "string \<Rightarrow> in_addr"
  os_gethostbyname :: "string \<Rightarrow> in_addr option"
  os_socket :: int
  os_connect :: "in_addr \<Rightarrow> nat \<Rightarrow> int"
  os_send_accepts :: int
  os_stream :: "event list"
  os_errno :: "syscall \<Rightarrow> int"

text \<open>
  \<open>WSAGetLastError\<close> returns \<open>errno\<close>; the argument names the call whose failure
  precedes it.
\<close>

definition WSAGetLastError :: "os \<Rightarrow> syscall \<Rightarrow> int" where
  "WSAGetLastError w call = os_errno w call"

text \<open>
  \<open>send(s, buf, len, 0)\<close>: \<open>-1\<close> on failure, otherwise the number of bytes accepted,
  never more than \<open>len\<close>.
\<close>

definition send :: "os \<Rightarrow> string \<Rightarrow> nat \<Rightarrow> int" where
  "send w buf len =
     (if os_send_accepts w < 0 then - 1 else min (os_send_accepts w) (int len))"

section \<open>Buffers\<close>

text \<open>
  A buffer is the list of its cells. A write checks its bounds: \<open>None\<close> is a write
  outside the buffer.
\<close>

definition poke :: "string \<Rightarrow> nat \<Rightarrow> char \<Rightarrow> string option" where
  "poke buf i c = (if i < length buf then Some (buf[i := c]) else None)"

definition store :: "string \<Rightarrow> string \<Rightarrow> string option" where
  "store buf bytes =
     (if length bytes \<le> length buf then Some (bytes @ drop (length bytes) buf) else None)"

text \<open>
  \<open>recv(s, buf, len, 0)\<close> on the pending events: at most \<open>len\<close> bytes of the first
  segment are copied to the start of \<open>buf\<close> and their number is returned, the rest of
  the segment stays pending; \<open>0\<close> at the end of the stream, \<open>-1\<close> on failure.
\<close>

datatype recv_result = Blocks | Overruns | Returns int string "event list"

fun recv :: "event list \<Rightarrow> string \<Rightarrow> nat \<Rightarrow> recv_result" where
  "recv [] buf len = Blocks"
| "recv (Eof # es) buf len = Returns 0 buf es"
| "recv (Error # es) buf len = Returns (- 1) buf es"
| "recv (Bytes d # es) buf len =
     (case store buf (take len d) of
        None \<Rightarrow> Overruns
      | Some buf' \<Rightarrow>
          Returns (int (length (take len d))) buf'
            (if len < length d then Bytes (drop len d) # es else es))"

section \<open>\<open>perr_exit\<close> and the outcome of a run\<close>

text \<open>
  A run ends in \<open>exit(status)\<close> (or the return from \<open>main\<close>) after printing \<open>stdout\<close>,
  or waits in \<open>recv\<close> for ever, or writes outside a buffer.
\<close>

datatype outcome = Exit (stdout: string) (status: int) | Blocked string | Fault

text \<open>The first argument is the standard output printed so far.\<close>

definition perr_exit :: "string \<Rightarrow> string \<Rightarrow> int \<Rightarrow> outcome" where
  "perr_exit out msg ret_code =
     Exit (out @ ''ERROR: '' @ msg @ '' (code '' @ show_int ret_code @ '')'' @ [LF]) ret_code"

section \<open>Step 11: receiving the response\<close>

definition stream_size :: "event list \<Rightarrow> nat" where
  "stream_size es = sum_list (map (\<lambda>e. case e of Bytes d \<Rightarrow> Suc (length d) | _ \<Rightarrow> 1) es)"

lemma recv_pending:
  assumes "recv es buf len = Returns rc buf' es'" and "0 < rc"
  shows "stream_size es' < stream_size es"
proof (cases es)
  case Nil
  then show ?thesis using assms by simp
next
  case (Cons e es0)
  then show ?thesis
    using assms by (cases e) (auto simp: stream_size_def split: option.splits if_splits)
qed

datatype rx = Rx_end int string | Rx_blocked string | Rx_fault

text \<open>
  The loop \<open>while ((rc = recv(s, recv_buf, bufsz - 2, 0)) > 0)\<close> with its body; the last
  argument is the standard output so far. \<open>Rx_end rc out\<close>: the loop was left with
  \<open>rc \<le> 0\<close>.
\<close>

function recv_loop :: "event list \<Rightarrow> string \<Rightarrow> string \<Rightarrow> rx" where
  "recv_loop es recv_buf out =
     (case recv es recv_buf (bufsz - 2) of
        Blocks \<Rightarrow> Rx_blocked out
      | Overruns \<Rightarrow> Rx_fault
      | Returns rc buf es' \<Rightarrow>
          if rc > 0 then
            (case poke buf (nat rc) NUL of
               None \<Rightarrow> Rx_fault
             | Some buf' \<Rightarrow> recv_loop es' buf' (out @ c_str buf'))
          else Rx_end rc out)"
  by pat_completeness auto
termination
  by (relation "measure (\<lambda>(es, recv_buf, out). stream_size es)") (auto dest: recv_pending)

declare recv_loop.simps [simp del]


definition response_header :: string where
  "response_header =
     ''[Step 9] Receiving HTTP response...'' @ [LF] @ ''---- Start of response ----'' @ [LF]"

definition response_trailer :: string where
  "response_trailer =
     [LF] @ ''---- End of response ----'' @ [LF]
     @ ''[Step 10] Closing socket and cleaning up.'' @ [LF]
     @ ''[Step 10] Done. Exiting.'' @ [LF]"

text \<open>
  Steps 11 and 12. The source does not initialise \<open>recv_buf\<close>; the cells start as
  NUL here, and the loop does not depend on them (\<open>recv_loop_buffer\<close> below). The
  result of \<open>closesocket\<close> is not looked at.
\<close>

definition receive_response :: "os \<Rightarrow> string \<Rightarrow> outcome" where
  "receive_response w out =
     (case recv_loop (os_stream w) (replicate bufsz NUL) (out @ response_header) of
        Rx_blocked out' \<Rightarrow> Blocked out'
      | Rx_fault \<Rightarrow> Fault
      | Rx_end rc out' \<Rightarrow>
          if rc < 0 then perr_exit out' ''Error receiving data'' (WSAGetLastError w Recv)
          else Exit (out' @ response_trailer) 0)"

section \<open>Steps 7 to 9: resolving, creating the socket, connecting\<close>

definition quoted :: "string \<Rightarrow> string" where
  "quoted s = [CHR 0x27] @ s @ [CHR 0x27]"

text \<open>The arrow of the diagnostic lines, in UTF-8.\<close>

definition arrow :: string where
  "arrow = [CHR 0xE2, CHR 0x86, CHR 0x92]"

text \<open>
  \<open>inet_addr\<close> first; on \<open>INADDR_NONE\<close> the address comes from \<open>gethostbyname\<close>, whose
  null pointer is \<open>None\<close>.
\<close>

definition resolve :: "os \<Rightarrow> string \<Rightarrow> in_addr option" where
  "resolve w connectTo =
     (if os_inet_addr w connectTo = INADDR_NONE then os_gethostbyname w connectTo
      else Some (os_inet_addr w connectTo))"

definition connector :: "os \<Rightarrow> string \<Rightarrow> string \<Rightarrow> int \<Rightarrow> outcome + string" where
  "connector w out connectTo connectPort =
     (let out = out @ ''[Step 5] Resolving '' @ quoted connectTo @ '' ...'' @ [LF];
          sin_port = htons connectPort;
          out = (if os_inet_addr w connectTo = INADDR_NONE
                 then out @ ''        inet_addr failed; calling gethostbyname for ''
                      @ quoted connectTo @ ''...'' @ [LF]
                 else out)
      in case resolve w connectTo of
           None \<Rightarrow>
             Inl (perr_exit out ''Cannot resolve connectTo'' (WSAGetLastError w Gethostbyname))
         | Some sin_addr \<Rightarrow>
             (let out = out @ ''        Resolved '' @ quoted connectTo @ '' '' @ arrow @ '' ''
                        @ inet_ntoa sin_addr @ '':'' @ show_int connectPort @ [LF];
                  out = out @ ''[Step 6] Creating socket...'' @ [LF];
                  s = os_socket w
              in if s < 0 then
                   Inl (perr_exit out ''Cannot create socket'' (WSAGetLastError w Socket))
                 else
                   (let out = out @ ''        Socket created (fd='' @ show_int s @ '')'' @ [LF];
                        out = out @ ''[Step 7] Connecting to '' @ connectTo @ '':''
                              @ show_int connectPort @ '' ...'' @ [LF]
                    in if os_connect w sin_addr sin_port \<noteq> 0 then
                         Inl (perr_exit out ''Cannot connect'' (WSAGetLastError w Connect))
                       else
                         Inr (out @ ''        Connected to '' @ connectTo @ '':''
                              @ show_int connectPort @ [LF]))))"

section \<open>Step 10: sending the request\<close>

definition send_request :: "os \<Rightarrow> string \<Rightarrow> string \<Rightarrow> outcome + string" where
  "send_request w out send_buf =
     (if send w send_buf (strlen send_buf) < int (strlen send_buf) then
        Inl (perr_exit out ''Cannot send data'' (WSAGetLastError w Send))
      else Inr (out @ ''        Request sent successfully.'' @ [LF]))"

section \<open>The program\<close>

text \<open>The Unix branch of the source (\<open>_WIN32\<close> not defined).\<close>

definition main :: "os \<Rightarrow> outcome" where
  "main w =
     (let out = ''[Step 1] (Unix) No WSAStartup needed.'' @ [LF]
                @ ''[Step 2] Preparing address structure...'' @ [LF]
                @ ''[Step 3] Asking for URL...'' @ [LF]
                @ ''URL: ''
      in case scanf_s 1023 (os_stdin w) of
           None \<Rightarrow> perr_exit out ''Failed to read URL'' (- 1)
         | Some buf \<Rightarrow>
             (let url = c_str buf;
                  out = out @ ''[Step 4] Parsing URL...'' @ [LF];
                  (host, site) = parse_url url;
                  out = out @ ''        Parsed Host: '' @ host @ [LF]
                        @ ''        Parsed Site: '' @ site @ [LF];
                  px = proxy_resolver (os_getenv w ''http_proxy'');
                  out = out @ (if useProxy px
                               then ''[DEBUG] http_proxy detected '' @ arrow @ '' ''
                                    @ proxyHost px @ '':'' @ show_int (proxyPort px) @ [LF]
                               else ''[DEBUG] No valid http_proxy found '' @ arrow
                                    @ '' connecting directly'' @ [LF]);
                  (connectTo, connectPort) = connect_target px host
              in case connector w out connectTo connectPort of
                   Inl exited \<Rightarrow> exited
                 | Inr out \<Rightarrow>
                     (let out = out @ ''[Step 8] Preparing HTTP GET request...'' @ [LF];
                          send_buf = build_request (useProxy px) host site;
                          out = out @ ''        >>> Request >>>'' @ [LF] @ send_buf @ [LF]
                      in case send_request w out send_buf of
                           Inl exited \<Rightarrow> exited
                         | Inr out \<Rightarrow> receive_response w out)))"

text \<open>A run against a server that answers and closes, for the examples below.\<close>

definition example_os :: os where
  "example_os =
     \<lparr>os_stdin = ''http://example.com/index.html'' @ [LF],
      os_getenv = (\<lambda>name. None),
      os_inet_addr = (\<lambda>name. INADDR_NONE),
      os_gethostbyname = (\<lambda>name. Some (93, 184, 216, 34)),
      os_socket = 3,
      os_connect = (\<lambda>a port. 0),
      os_send_accepts = 4096,
      os_stream = [Bytes (''HTTP/1.1 200 OK'' @ crlf @ crlf @ ''hello''), Eof],
      os_errno = (\<lambda>call. 0)\<rparr>"

section \<open>Decimal numerals\<close>

text \<open>
  The integer that a sequence of decimal digits denotes, most significant digit first.
\<close>

definition decimal :: "string \<Rightarrow> int" where
  "decimal ds = horner_sum (\<lambda>c. int (digit_val c)) 10 (rev ds)"

text \<open>
  How the text behind the colon is read as a port, said without the library's loop:
  white space is skipped and one sign is read, the decimal digits that follow denote
  the value (no digit denotes 0), and whatever follows the digits is ignored. The
  value is then held in 64 bits, saturated, and the port is its low 32 bits as a
  signed \<open>int\<close>.
\<close>

definition leading_int :: "string \<Rightarrow> int" where
  "leading_int r =
     (case dropWhile isspace r of
        [] \<Rightarrow> 0
      | c # t \<Rightarrow>
          if c = CHR ''-'' then - decimal (takeWhile isdigit t)
          else if c = CHR ''+'' then decimal (takeWhile isdigit t)
          else decimal (takeWhile isdigit (c # t)))"

definition port_read :: "string \<Rightarrow> int" where
  "port_read r =
     (max (- (2 ^ 63)) (min (2 ^ 63 - 1) (leading_int r)) + 2 ^ 31) mod 2 ^ 32 - 2 ^ 31"

section \<open>Facts about the library functions\<close>

lemma strncmp_eq_take:
  "strncmp_eq a b n = (take n a = take n b)"
  by (induction a b n rule: strncmp_eq.induct) auto

lemma strncmp_eq_prefix:
  "n = length p \<Longrightarrow> strncmp_eq p s n = prefix p s"
  by (simp add: strncmp_eq_take prefix_def) (metis append_eq_conv_conj append_take_drop_id)

lemma strchr_None:
  "strchr s c = None \<longleftrightarrow> c \<notin> set s"
  by (induction s) auto

lemma strchr_Some:
  "strchr s c = Some i \<longleftrightarrow> (i < length s \<and> s ! i = c \<and> c \<notin> set (take i s))"
proof (induction s arbitrary: i)
  case Nil
  then show ?case by simp
next
  case (Cons x xs)
  show ?case
  proof (cases i)
    case 0
    then show ?thesis by auto
  next
    case (Suc j)
    then show ?thesis using Cons.IH [of j] by auto
  qed
qed

lemma strchr_split:
  "strchr s c = Some i \<Longrightarrow> s = take i s @ c # drop (Suc i) s \<and> c \<notin> set (take i s)"
  using id_take_nth_drop [of i s] by (simp add: strchr_Some)

lemma strchr_append:
  "c \<notin> set h \<Longrightarrow> strchr (h @ c # r) c = Some (length h)"
  by (induction h) auto

lemma split_at_strchr:
  assumes "split_at (strchr r c) r = (h, s)"
  shows "if c \<in> set r then r = h @ c # s \<and> c \<notin> set h else h = r \<and> s = []"
proof (cases "strchr r c")
  case None
  then show ?thesis
    using assms strchr_None [of r c] by (simp add: split_at_def strlen_def)
next
  case (Some i)
  then have "c \<in> set r"
    using strchr_None [of r c] by auto
  then show ?thesis
    using assms Some strchr_split [OF Some] by (simp add: split_at_def)
qed

lemma first_split_unique:
  fixes a :: string
  assumes "c \<notin> set a" and "c \<notin> set a'" and "a @ c # b = a' @ c # b'"
  shows "a = a' \<and> b = b'"
proof -
  have "strchr (a @ c # b) c = Some (length a)"
    and "strchr (a' @ c # b') c = Some (length a')"
    using assms(1,2) by (simp_all add: strchr_append)
  then have "length a = length a'"
    using assms(3) by simp
  then show ?thesis
    using assms(3) by simp
qed

lemma parse_url_strchr:
  "parse_url url
     = split_at (strchr (if prefix ''http://'' url then drop 7 url else url) (CHR ''/''))
         (if prefix ''http://'' url then drop 7 url else url)"
proof -
  have "strncmp_eq ''http://'' url 7 = prefix ''http://'' url"
    by (rule strncmp_eq_prefix) simp
  then show ?thesis
    by (simp add: parse_url_def Let_def)
qed

subsection \<open>The request fits its buffer\<close>

lemma scanf_s_length:
  "scanf_s N inp = Some buf \<Longrightarrow> length buf \<le> N"
  by (auto simp: scanf_s_def Let_def split: if_splits)

lemma c_str_length:
  "length (c_str buf) \<le> length buf"
  by (simp add: c_str_def length_takeWhile_le)

lemma split_at_length:
  "split_at site host = (h, s) \<Longrightarrow> length h + length s \<le> length host"
  by (auto simp: split_at_def strlen_def split: option.splits)

lemma parse_url_length:
  "parse_url url = (host, site) \<Longrightarrow> length host + length site \<le> length url"
  by (auto simp: parse_url_def Let_def split: if_splits dest!: split_at_length)

lemma url_length:
  assumes "scanf_s 1023 inp = Some buf" and "parse_url (c_str buf) = (host, site)"
  shows "length host + length site \<le> 1023"
  using scanf_s_length [OF assms(1)] parse_url_length [OF assms(2)] c_str_length [of buf]
  by linarith

lemma snprintf_fits:
  "length s < n \<Longrightarrow> snprintf n s = s"
  by (simp add: snprintf_def)

lemma snprintf_prefix:
  "length p < n \<Longrightarrow> prefix p (snprintf n (p @ rest))"
  by (simp add: snprintf_def)

subsection \<open>The proxy variable\<close>

lemma proxy_resolver_form:
  assumes "CHR '':'' \<notin> set h"
  shows "proxy_resolver (Some (''http://'' @ h @ '':'' @ r))
    = \<lparr>useProxy = (0 < atoi r), proxyHost = h, proxyPort = atoi r\<rparr>"
proof -
  have "strchr (h @ CHR '':'' # r) (CHR '':'') = Some (length h)"
    using assms by (rule strchr_append)
  then show ?thesis
    by (simp add: proxy_resolver_def strncmp_eq_take Let_def)
qed

lemma proxy_resolver_enabled:
  assumes "useProxy (proxy_resolver env)"
  shows "\<exists>h r. env = Some (''http://'' @ h @ '':'' @ r) \<and> CHR '':'' \<notin> set h"
proof -
  obtain v where v: "env = Some v"
    using assms by (cases env) (simp_all add: proxy_resolver_def)
  have pre: "take 7 v = ''http://''"
    using assms v by (simp add: proxy_resolver_def strncmp_eq_take Let_def split: if_splits)
  obtain colon where colon: "strchr (drop 7 v) (CHR '':'') = Some colon"
    using assms v by (cases "strchr (drop 7 v) (CHR '':'')")
      (simp_all add: proxy_resolver_def Let_def split: if_splits)
  define h where "h = take colon (drop 7 v)"
  define r where "r = drop (Suc colon) (drop 7 v)"
  have split: "drop 7 v = h @ CHR '':'' # r \<and> CHR '':'' \<notin> set h"
    unfolding h_def r_def using colon by (rule strchr_split)
  have "''http://'' @ drop 7 v = v"
    using append_take_drop_id [of 7 v] by (simp only: pre)
  then have "v = ''http://'' @ h @ '':'' @ r"
    using split by simp
  then show ?thesis
    using v split by blast
qed

subsection \<open>\<open>atoi\<close> on a leading digit sequence\<close>

lemma decimal_Cons:
  "decimal (d # ds) = int (digit_val d) * 10 ^ length ds + decimal ds"
  by (simp add: decimal_def horner_sum_append)

lemma atoi_digits_decimal:
  assumes "\<forall>c \<in> set ds. isdigit c" and "rest = [] \<or> \<not> isdigit (hd rest)"
  shows "atoi_digits acc (ds @ rest) = acc * 10 ^ length ds + decimal ds"
  using assms
proof (induction ds arbitrary: acc)
  case Nil
  then show ?case by (cases rest) (simp_all add: decimal_def)
next
  case (Cons d ds)
  then show ?case by (simp add: decimal_Cons algebra_simps)
qed

lemma atoi_digits_takeWhile:
  "atoi_digits 0 R = decimal (takeWhile isdigit R)"
proof -
  let ?ds = "takeWhile isdigit R" and ?rest = "dropWhile isdigit R"
  have digits: "\<forall>c \<in> set ?ds. isdigit c"
    by (auto dest: set_takeWhileD)
  have stop: "?rest = [] \<or> \<not> isdigit (hd ?rest)"
    using hd_dropWhile [of isdigit R] by blast
  have "atoi_digits 0 (?ds @ ?rest) = 0 * 10 ^ length ?ds + decimal ?ds"
    using digits stop by (rule atoi_digits_decimal)
  then show ?thesis
    by (simp only: takeWhile_dropWhile_id mult_zero_left add_0)
qed

lemma isdigit_not_space_sign:
  assumes "isdigit c"
  shows "\<not> isspace c \<and> c \<noteq> CHR ''-'' \<and> c \<noteq> CHR ''+''"
proof -
  have "\<not> isdigit (CHR 0x20)" "\<not> isdigit (CHR 0x09)" "\<not> isdigit (CHR 0x0A)"
    "\<not> isdigit (CHR 0x0B)" "\<not> isdigit (CHR 0x0C)" "\<not> isdigit (CHR 0x0D)"
    "\<not> isdigit (CHR ''-'')" "\<not> isdigit (CHR ''+'')"
    by (simp_all add: isdigit_def)
  then show ?thesis
    using assms unfolding isspace_def by blast
qed

lemma atoi_leading_digits:
  assumes "0 < decimal (takeWhile isdigit R)" and "decimal (takeWhile isdigit R) \<le> INT_MAX"
  shows "atoi R = decimal (takeWhile isdigit R)"
proof -
  obtain c r where R: "R = c # r" and c: "isdigit c"
    using assms(1) by (cases R) (auto simp: decimal_def split: if_splits)
  have "strtol R = min LONG_MAX (atoi_digits 0 R)"
    using isdigit_not_space_sign [OF c] by (simp add: strtol_def R)
  also have "\<dots> = decimal (takeWhile isdigit R)"
    using assms(2) by (simp add: atoi_digits_takeWhile LONG_MAX_def INT_MAX_def)
  finally show ?thesis
    using assms by (simp add: atoi_def int_of_long_def INT_MAX_def)
qed

lemma decimal_nonneg:
  "0 \<le> decimal ds"
proof -
  have "0 \<le> horner_sum (\<lambda>c. int (digit_val c)) 10 xs" for xs
    by (induction xs) simp_all
  then show ?thesis
    by (simp add: decimal_def)
qed

lemma strtol_leading_int:
  "strtol r = max (- (2 ^ 63)) (min (2 ^ 63 - 1) (leading_int r))"
proof (cases "dropWhile isspace r")
  case Nil
  show ?thesis
    unfolding strtol_def leading_int_def Let_def Nil by simp
next
  case (Cons c t)
  have "0 \<le> decimal (takeWhile isdigit t)" and "0 \<le> decimal (takeWhile isdigit (c # t))"
    by (rule decimal_nonneg)+
  then show ?thesis
    unfolding strtol_def leading_int_def Let_def Cons list.case atoi_digits_takeWhile
      LONG_MAX_def LONG_MIN_def
    by (simp add: min_def max_def)
qed

lemma atoi_port_read:
  "atoi r = port_read r"
  by (simp add: atoi_def int_of_long_def port_read_def strtol_leading_int)

subsection \<open>Values used in the examples\<close>

lemma port_read_examples:
  "port_read ''8080'' = 8080" "port_read ''port'' = 0" "port_read ''-8080'' = - 8080"
  "port_read ''80abc'' = 80" "port_read ''4294967296'' = 0"
  by (simp_all add: port_read_def leading_int_def decimal_def isspace_def isdigit_def
      digit_val_def)

lemma show_int_examples:
  "show_int 0 = ''0''" "show_int 24 = ''24''" "show_int 32 = ''32''"
  "show_int 104 = ''104''" "show_int 111 = ''111''"
  by code_simp+

lemma scanf_example:
  "scanf_s 1023 (''http://example.com/index.html'' @ [LF]) = Some ''http://example.com/index.html''"
  by (simp add: scanf_s_def isspace_def LF_def)

lemma parse_example:
  "parse_url (c_str ''http://example.com/index.html'') = (''example.com'', ''index.html'')"
  by (simp add: c_str_def NUL_def parse_url_def split_at_def strncmp_eq_take)

lemma proxy_example:
  "proxy_resolver (Some ''http://proxy.example:8080'')
    = \<lparr>useProxy = True, proxyHost = ''proxy.example'', proxyPort = 8080\<rparr>"
  by (simp add: proxy_resolver_def strncmp_eq_take atoi_def strtol_def isspace_def
      isdigit_def digit_val_def int_of_long_def LONG_MAX_def)

lemma no_proxy_example:
  "proxy_resolver None = \<lparr>useProxy = False, proxyHost = [], proxyPort = 0\<rparr>"
  by (simp add: proxy_resolver_def)

subsection \<open>The receive loop\<close>

lemma store_Some:
  "length bytes \<le> length buf \<Longrightarrow> store buf bytes = Some (bytes @ drop (length bytes) buf)"
  by (simp add: store_def)

lemma recv_full_buffer:
  assumes "length recv_buf = bufsz"
  shows "recv es recv_buf (bufsz - 2) \<noteq> Overruns"
    and "recv es recv_buf (bufsz - 2) = Returns rc buf es'
      \<Longrightarrow> length buf = bufsz \<and> rc \<le> int (bufsz - 2)"
proof -
  have fits: "length (take (bufsz - 2) d) \<le> length recv_buf" for d :: string
    using assms by simp
  show "recv es recv_buf (bufsz - 2) \<noteq> Overruns"
  proof (cases es)
    case Nil
    then show ?thesis by simp
  next
    case (Cons e es0)
    then show ?thesis
      by (cases e) (simp_all add: store_Some [OF fits])
  qed
  show "length buf = bufsz \<and> rc \<le> int (bufsz - 2)"
    if "recv es recv_buf (bufsz - 2) = Returns rc buf es'"
  proof (cases es)
    case Nil
    then show ?thesis using that by simp
  next
    case (Cons e es0)
    then show ?thesis
      using that assms by (cases e) (auto simp: store_Some [OF fits])
  qed
qed

lemma poke_terminator:
  assumes "length buf = bufsz" and "rc \<le> int (bufsz - 2)"
  shows "poke buf (nat rc) NUL = Some (buf[nat rc := NUL])"
  using assms by (simp add: poke_def bufsz_def)

lemma recv_loop_no_fault:
  "length recv_buf = bufsz \<Longrightarrow> recv_loop es recv_buf out \<noteq> Rx_fault"
proof (induction es recv_buf out rule: recv_loop.induct)
  case (1 es recv_buf out)
  show ?case
  proof (cases "recv es recv_buf (bufsz - 2)")
    case Blocks
    then show ?thesis by (simp add: recv_loop.simps)
  next
    case Overruns
    then show ?thesis using recv_full_buffer(1) [OF "1.prems"] by simp
  next
    case (Returns rc buf es')
    note bounds = recv_full_buffer(2) [OF "1.prems" Returns]
    show ?thesis
    proof (cases "0 < rc")
      case False
      then show ?thesis using Returns by (simp add: recv_loop.simps)
    next
      case True
      have poke: "poke buf (nat rc) NUL = Some (buf[nat rc := NUL])"
        using bounds by (simp add: poke_terminator)
      have "recv_loop es' (buf[nat rc := NUL]) (out @ c_str (buf[nat rc := NUL])) \<noteq> Rx_fault"
        using "1.IH" [OF Returns True poke] bounds by simp
      then show ?thesis
        using Returns True poke by (simp add: recv_loop.simps)
    qed
  qed
qed

lemma c_str_terminated:
  "c_str (d @ NUL # r) = c_str d"
  by (simp add: c_str_def takeWhile_tail)

lemma c_str_no_NUL:
  "NUL \<notin> set d \<Longrightarrow> c_str d = d"
  by (auto simp: c_str_def)

lemma concat_c_str:
  "\<forall>d \<in> set ds. NUL \<notin> set d \<Longrightarrow> concat (map c_str ds) = concat ds"
  by (induction ds) (simp_all add: c_str_no_NUL)

lemma c_str_poke:
  assumes "length d < length buf"
  shows "c_str ((d @ drop (length d) buf)[length d := NUL]) = c_str d"
proof -
  obtain y r where "drop (length d) buf = y # r"
    using assms by (cases "drop (length d) buf") simp_all
  then show ?thesis
    by (simp add: c_str_terminated)
qed

text \<open>One turn of the loop on a pending segment, for a buffer of any size.\<close>

lemma recv_loop_step:
  "recv_loop (Bytes d # es) buf out =
     (let got = take (bufsz - 2) d;
          es' = (if bufsz - 2 < length d then Bytes (drop (bufsz - 2) d) # es else es)
      in if length buf < length got then Rx_fault
         else if got = [] then Rx_end 0 out
         else if length buf \<le> length got then Rx_fault
         else recv_loop es' ((got @ drop (length got) buf)[length got := NUL]) (out @ c_str got))"
proof -
  define got where "got = take (bufsz - 2) d"
  have "c_str ((got @ drop (length got) buf)[length got := NUL]) = c_str got"
    if "length got < length buf"
    using that by (rule c_str_poke)
  then show ?thesis
    unfolding Let_def got_def [symmetric]
    by (subst recv_loop.simps) (auto simp: store_def poke_def got_def [symmetric])
qed

text \<open>
  The loop does not depend on what the buffer holds when it starts: the cells that the
  source leaves uninitialised are never printed.
\<close>

lemma recv_loop_buffer:
  "length b1 = length b2 \<Longrightarrow> recv_loop es b1 out = recv_loop es b2 out"
proof (induction es b1 out arbitrary: b2 rule: recv_loop.induct)
  case (1 es b1 out)
  show ?case
  proof (cases es)
    case Nil
    then show ?thesis by (simp add: recv_loop.simps)
  next
    case (Cons e es0)
    show ?thesis
    proof (cases e)
      case Eof
      then show ?thesis using Cons by (simp add: recv_loop.simps)
    next
      case Error
      then show ?thesis using Cons by (simp add: recv_loop.simps)
    next
      case (Bytes d)
      define got where "got = take (bufsz - 2) d"
      define es' where
        "es' = (if bufsz - 2 < length d then Bytes (drop (bufsz - 2) d) # es0 else es0)"
      show ?thesis
      proof (cases "got \<noteq> [] \<and> length got < length b1")
        case False
        then show ?thesis
          using "1.prems" unfolding Cons Bytes recv_loop_step Let_def got_def [symmetric]
          by auto
      next
        case True
        let ?b1 = "(got @ drop (length got) b1)[length got := NUL]"
        let ?b2 = "(got @ drop (length got) b2)[length got := NUL]"
        have recv: "recv es b1 (bufsz - 2)
            = Returns (int (length got)) (got @ drop (length got) b1) es'"
          using True by (simp add: Cons Bytes store_def got_def es'_def)
        have poke: "poke (got @ drop (length got) b1) (nat (int (length got))) NUL = Some ?b1"
          using True by (simp add: poke_def)
        have pos: "0 < int (length got)"
          using True by simp
        have "recv_loop es' ?b1 (out @ c_str ?b1) = recv_loop es' ?b2 (out @ c_str ?b1)"
          using "1.IH" [OF recv pos poke, of ?b2] "1.prems" by simp
        moreover have "c_str ?b1 = c_str got"
          using True by (simp add: c_str_poke)
        ultimately show ?thesis
          using True "1.prems" unfolding Cons Bytes recv_loop_step Let_def got_def [symmetric]
            es'_def [symmetric]
          by simp
      qed
    qed
  qed
qed

lemma recv_loop_chunk:
  assumes "length recv_buf = bufsz" and "d \<noteq> []" and "length d \<le> bufsz - 2"
  shows "\<exists>buf'. length buf' = bufsz
    \<and> recv_loop (Bytes d # es) recv_buf out = recv_loop es buf' (out @ c_str d)"
proof -
  define r where "r = drop (length d) recv_buf"
  have len_r: "length r = bufsz - length d"
    using assms(1) by (simp add: r_def)
  then obtain y r' where r: "r = y # r'"
    using assms(3) by (cases r) (simp_all add: bufsz_def)
  have "length d + length r = bufsz"
    using len_r assms(3) by (simp add: bufsz_def)
  then have size: "length (d @ NUL # r') = bufsz"
    by (simp add: r)
  have recv: "recv (Bytes d # es) recv_buf (bufsz - 2) = Returns (int (length d)) (d @ r) es"
    using assms by (simp add: store_def r_def)
  have poke: "poke (d @ r) (length d) NUL = Some (d @ NUL # r')"
    by (simp add: poke_def r)
  have "recv_loop (Bytes d # es) recv_buf out
      = recv_loop es (d @ NUL # r') (out @ c_str (d @ NUL # r'))"
    using assms(2) by (subst recv_loop.simps) (simp add: recv poke del: recv.simps)
  then have "recv_loop (Bytes d # es) recv_buf out = recv_loop es (d @ NUL # r') (out @ c_str d)"
    by (simp only: c_str_terminated)
  then show ?thesis
    using size by blast
qed

lemma recv_loop_chunks:
  assumes "\<forall>d \<in> set ds. d \<noteq> [] \<and> length d \<le> bufsz - 2" and "length recv_buf = bufsz"
  shows "\<exists>buf'. length buf' = bufsz
    \<and> recv_loop (map Bytes ds @ es) recv_buf out = recv_loop es buf' (out @ concat (map c_str ds))"
  using assms
proof (induction ds arbitrary: recv_buf out)
  case Nil
  then show ?case by auto
next
  case (Cons d ds)
  obtain buf1 where buf1: "length buf1 = bufsz"
    "recv_loop (Bytes d # map Bytes ds @ es) recv_buf out
      = recv_loop (map Bytes ds @ es) buf1 (out @ c_str d)"
    using recv_loop_chunk [of recv_buf d "map Bytes ds @ es" out] Cons.prems by auto
  obtain buf2 where "length buf2 = bufsz"
    "recv_loop (map Bytes ds @ es) buf1 (out @ c_str d)
      = recv_loop es buf2 ((out @ c_str d) @ concat (map c_str ds))"
    using Cons.IH [of buf1 "out @ c_str d"] Cons.prems(1) buf1(1) by auto
  then show ?case
    using buf1(2) by auto
qed

lemma recv_loop_end:
  "recv_loop (Eof # es) recv_buf out = Rx_end 0 out"
  "recv_loop (Error # es) recv_buf out = Rx_end (- 1) out"
  "recv_loop [] recv_buf out = Rx_blocked out"
  by (simp_all add: recv_loop.simps)

lemma receive_response_chunks:
  assumes "\<forall>d \<in> set ds. d \<noteq> [] \<and> length d \<le> bufsz - 2"
  shows "os_stream w = map Bytes ds @ Eof # es \<Longrightarrow>
      receive_response w out
        = Exit (out @ response_header @ concat (map c_str ds) @ response_trailer) 0"
    and "os_stream w = map Bytes ds @ Error # es \<Longrightarrow>
      receive_response w out
        = perr_exit (out @ response_header @ concat (map c_str ds))
            ''Error receiving data'' (WSAGetLastError w Recv)"
    and "os_stream w = map Bytes ds \<Longrightarrow>
      receive_response w out = Blocked (out @ response_header @ concat (map c_str ds))"
proof -
  have size: "length (replicate bufsz NUL) = bufsz"
    by simp
  note chunks = recv_loop_chunks [OF assms size, of _ "out @ response_header"]
  show "receive_response w out
        = Exit (out @ response_header @ concat (map c_str ds) @ response_trailer) 0"
    if "os_stream w = map Bytes ds @ Eof # es"
    using chunks [of "Eof # es"] that
    by (auto simp: receive_response_def recv_loop_end)
  show "receive_response w out
        = perr_exit (out @ response_header @ concat (map c_str ds))
            ''Error receiving data'' (WSAGetLastError w Recv)"
    if "os_stream w = map Bytes ds @ Error # es"
    using chunks [of "Error # es"] that
    by (auto simp: receive_response_def recv_loop_end)
  show "receive_response w out = Blocked (out @ response_header @ concat (map c_str ds))"
    if "os_stream w = map Bytes ds"
    using chunks [of "[]"] that
    by (auto simp: receive_response_def recv_loop_end)
qed

subsection \<open>No run writes outside a buffer\<close>

lemma connector_no_fault:
  "connector w out connectTo connectPort \<noteq> Inl Fault"
  by (simp add: connector_def Let_def perr_exit_def split: option.splits)

lemma send_request_no_fault:
  "send_request w out send_buf \<noteq> Inl Fault"
  by (simp add: send_request_def perr_exit_def)

lemma receive_response_no_fault:
  "receive_response w out \<noteq> Fault"
proof -
  have "recv_loop (os_stream w) (replicate bufsz NUL) (out @ response_header) \<noteq> Rx_fault"
    by (rule recv_loop_no_fault) simp
  then show ?thesis
    by (simp add: receive_response_def perr_exit_def split: rx.splits)
qed

lemma sum_case_no_fault:
  assumes "x \<noteq> Inl Fault" and "\<And>out. f out \<noteq> Fault"
  shows "(case x of Inl exited \<Rightarrow> exited | Inr out \<Rightarrow> f out) \<noteq> Fault"
  using assms by (cases x) auto

lemma main_no_fault:
  "main w \<noteq> Fault"
proof (cases "scanf_s 1023 (os_stdin w)")
  case None
  then show ?thesis by (simp add: main_def perr_exit_def)
next
  case (Some buf)
  obtain host site where parsed: "parse_url (c_str buf) = (host, site)"
    by (cases "parse_url (c_str buf)")
  obtain connectTo connectPort where
    target: "connect_target (proxy_resolver (os_getenv w ''http_proxy'')) host
      = (connectTo, connectPort)"
    by (cases "connect_target (proxy_resolver (os_getenv w ''http_proxy'')) host")
  show ?thesis
    unfolding main_def Let_def Some parsed target option.case prod.case
    by (intro sum_case_no_fault connector_no_fault send_request_no_fault
        receive_response_no_fault)
qed

text \<open>A buffer two cells shorter would not hold the terminator of a full read.\<close>

lemma recv_loop_small_buffer:
  "recv_loop [Bytes (replicate 4094 c)] (replicate 4094 NUL) out = Rx_fault"
  by (subst recv_loop.simps) (simp add: bufsz_def store_def poke_def)

subsection \<open>The failing calls of the connector\<close>

lemma connector_resolve_fails:
  assumes "resolve w connectTo = None"
  shows "\<exists>out'. connector w out connectTo connectPort
    = Inl (perr_exit out' ''Cannot resolve connectTo'' (WSAGetLastError w Gethostbyname))"
  using assms by (auto simp: connector_def Let_def)

lemma connector_socket_fails:
  assumes "resolve w connectTo = Some a" and "os_socket w < 0"
  shows "\<exists>out'. connector w out connectTo connectPort
    = Inl (perr_exit out' ''Cannot create socket'' (WSAGetLastError w Socket))"
  using assms by (auto simp: connector_def Let_def)

lemma connector_connect_fails:
  assumes "resolve w connectTo = Some a" and "0 \<le> os_socket w"
    and "os_connect w a (htons connectPort) \<noteq> 0"
  shows "\<exists>out'. connector w out connectTo connectPort
    = Inl (perr_exit out' ''Cannot connect'' (WSAGetLastError w Connect))"
  using assms by (auto simp: connector_def Let_def)

subsection \<open>The run as a whole\<close>

lemma main_phases:
  assumes "scanf_s 1023 (os_stdin w) = Some buf"
    and "parse_url (c_str buf) = (host, site)"
    and "px = proxy_resolver (os_getenv w ''http_proxy'')"
    and "connect_target px host = (connectTo, connectPort)"
  shows "\<exists>out0 out1. main w =
    (case connector w out0 connectTo connectPort of
       Inl exited \<Rightarrow> exited
     | Inr out \<Rightarrow>
         (case send_request w (out @ out1) (build_request (useProxy px) host site) of
            Inl exited \<Rightarrow> exited
          | Inr out \<Rightarrow> receive_response w out))"
proof -
  have target: "connect_target (proxy_resolver (os_getenv w ''http_proxy'')) host
      = (connectTo, connectPort)"
    using assms(3,4) by simp
  show ?thesis
    unfolding main_def Let_def assms(1,2) target assms(3) option.case prod.case append_assoc
    by (intro exI) (rule refl)
qed

lemma connector_connects:
  assumes "resolve w connectTo = Some a" and "0 \<le> os_socket w"
    and "os_connect w a (htons connectPort) = 0"
  shows "\<exists>out'. connector w out connectTo connectPort = Inr out'"
  using assms by (auto simp: connector_def Let_def)

lemma connector_outcomes:
  "(\<exists>out'. connector w out connectTo connectPort = Inr out')
   \<or> (\<exists>out'. connector w out connectTo connectPort
         = Inl (perr_exit out' ''Cannot resolve connectTo'' (WSAGetLastError w Gethostbyname)))
   \<or> (\<exists>out'. connector w out connectTo connectPort
         = Inl (perr_exit out' ''Cannot create socket'' (WSAGetLastError w Socket)))
   \<or> (\<exists>out'. connector w out connectTo connectPort
         = Inl (perr_exit out' ''Cannot connect'' (WSAGetLastError w Connect)))"
proof (cases "resolve w connectTo")
  case None
  then show ?thesis
    using connector_resolve_fails by blast
next
  case (Some a)
  show ?thesis
  proof (cases "os_socket w < 0")
    case True
    then show ?thesis
      using Some connector_socket_fails by blast
  next
    case False
    then have fd: "0 \<le> os_socket w"
      by simp
    show ?thesis
    proof (cases "os_connect w a (htons connectPort) = 0")
      case True
      then show ?thesis
        using Some fd connector_connects by blast
    next
      case False
      then show ?thesis
        using Some fd connector_connect_fails by blast
    qed
  qed
qed

lemma send_request_outcomes:
  "(\<exists>out'. send_request w out send_buf = Inr out')
   \<or> send_request w out send_buf
       = Inl (perr_exit out ''Cannot send data'' (WSAGetLastError w Send))"
  by (simp add: send_request_def)

lemma receive_response_outcomes:
  "(\<exists>out'. receive_response w out = Blocked out')
   \<or> (\<exists>out'. receive_response w out = Exit (out' @ response_trailer) 0)
   \<or> (\<exists>out'. receive_response w out
         = perr_exit out' ''Error receiving data'' (WSAGetLastError w Recv))"
proof (cases "recv_loop (os_stream w) (replicate bufsz NUL) (out @ response_header)")
  case (Rx_end rc out')
  then have "receive_response w out
      = (if rc < 0 then perr_exit out' ''Error receiving data'' (WSAGetLastError w Recv)
         else Exit (out' @ response_trailer) 0)"
    by (simp add: receive_response_def)
  then show ?thesis
    by (cases "rc < 0") auto
next
  case (Rx_blocked out')
  then show ?thesis
    by (simp add: receive_response_def)
next
  case Rx_fault
  moreover have "recv_loop (os_stream w) (replicate bufsz NUL) (out @ response_header) \<noteq> Rx_fault"
    by (rule recv_loop_no_fault) simp
  ultimately show ?thesis
    by simp
qed

lemma main_outcomes:
  "(\<exists>out. main w = Blocked out)
   \<or> (\<exists>out. main w = Exit (out @ response_trailer) 0)
   \<or> (\<exists>out. main w = perr_exit out ''Failed to read URL'' (- 1))
   \<or> (\<exists>out. main w
         = perr_exit out ''Cannot resolve connectTo'' (WSAGetLastError w Gethostbyname))
   \<or> (\<exists>out. main w = perr_exit out ''Cannot create socket'' (WSAGetLastError w Socket))
   \<or> (\<exists>out. main w = perr_exit out ''Cannot connect'' (WSAGetLastError w Connect))
   \<or> (\<exists>out. main w = perr_exit out ''Cannot send data'' (WSAGetLastError w Send))
   \<or> (\<exists>out. main w = perr_exit out ''Error receiving data'' (WSAGetLastError w Recv))"
proof (cases "scanf_s 1023 (os_stdin w)")
  case None
  then have "\<exists>out. main w = perr_exit out ''Failed to read URL'' (- 1)"
    by (auto simp: main_def)
  then show ?thesis
    by blast
next
  case (Some buf)
  obtain host site where parsed: "parse_url (c_str buf) = (host, site)"
    by (cases "parse_url (c_str buf)")
  define px where "px = proxy_resolver (os_getenv w ''http_proxy'')"
  obtain connectTo connectPort where target: "connect_target px host = (connectTo, connectPort)"
    by (cases "connect_target px host")
  obtain out0 out1 where run: "main w =
    (case connector w out0 connectTo connectPort of
       Inl exited \<Rightarrow> exited
     | Inr out \<Rightarrow>
         (case send_request w (out @ out1) (build_request (useProxy px) host site) of
            Inl exited \<Rightarrow> exited
          | Inr out \<Rightarrow> receive_response w out))"
    using main_phases [OF Some parsed px_def target] by blast
  show ?thesis
  proof (cases "connector w out0 connectTo connectPort")
    case (Inl exited)
    then show ?thesis
      using connector_outcomes [of w out0 connectTo connectPort] run by auto
  next
    case connected: (Inr out)
    show ?thesis
    proof (cases "send_request w (out @ out1) (build_request (useProxy px) host site)")
      case (Inl exited)
      then show ?thesis
        using send_request_outcomes [of w "out @ out1" "build_request (useProxy px) host site"]
          run connected by auto
    next
      case (Inr out2)
      then have "main w = receive_response w out2"
        using run connected by simp
      then show ?thesis
        using receive_response_outcomes [of w out2] by auto
    qed
  qed
qed

lemma main_after_connect:
  assumes "scanf_s 1023 (os_stdin w) = Some buf"
    and "parse_url (c_str buf) = (host, site)"
    and "px = proxy_resolver (os_getenv w ''http_proxy'')"
    and "connect_target px host = (connectTo, connectPort)"
    and "resolve w connectTo = Some a"
    and "0 \<le> os_socket w"
    and "os_connect w a (htons connectPort) = 0"
  shows "\<exists>out. main w =
    (case send_request w out (build_request (useProxy px) host site) of
       Inl exited \<Rightarrow> exited
     | Inr out \<Rightarrow> receive_response w out)"
proof -
  obtain out0 out1 where run: "main w =
    (case connector w out0 connectTo connectPort of
       Inl exited \<Rightarrow> exited
     | Inr out \<Rightarrow>
         (case send_request w (out @ out1) (build_request (useProxy px) host site) of
            Inl exited \<Rightarrow> exited
          | Inr out \<Rightarrow> receive_response w out))"
    using main_phases [OF assms(1-4)] by blast
  obtain out2 where "connector w out0 connectTo connectPort = Inr out2"
    using connector_connects [OF assms(5-7)] by blast
  then have "main w =
    (case send_request w (out2 @ out1) (build_request (useProxy px) host site) of
       Inl exited \<Rightarrow> exited
     | Inr out \<Rightarrow> receive_response w out)"
    using run by simp
  then show ?thesis
    by blast
qed

lemma main_send:
  assumes "scanf_s 1023 (os_stdin w) = Some buf"
    and "parse_url (c_str buf) = (host, site)"
    and "px = proxy_resolver (os_getenv w ''http_proxy'')"
    and "connect_target px host = (connectTo, connectPort)"
    and "resolve w connectTo = Some a"
    and "0 \<le> os_socket w"
    and "os_connect w a (htons connectPort) = 0"
  shows "os_send_accepts w < int (length (build_request (useProxy px) host site)) \<Longrightarrow>
      \<exists>out. main w = perr_exit out ''Cannot send data'' (WSAGetLastError w Send)"
    and "int (length (build_request (useProxy px) host site)) \<le> os_send_accepts w \<Longrightarrow>
      \<exists>out. main w = receive_response w out"
proof -
  obtain out where run: "main w =
    (case send_request w out (build_request (useProxy px) host site) of
       Inl exited \<Rightarrow> exited
     | Inr out \<Rightarrow> receive_response w out)"
    using main_after_connect [OF assms] by blast
  show "\<exists>out. main w = perr_exit out ''Cannot send data'' (WSAGetLastError w Send)"
    if "os_send_accepts w < int (length (build_request (useProxy px) host site))"
    using that run by (auto simp: send_request_def send_def strlen_def)
  show "\<exists>out. main w = receive_response w out"
    if "int (length (build_request (useProxy px) host site)) \<le> os_send_accepts w"
    using that run by (auto simp: send_request_def send_def strlen_def)
qed

section \<open>Connect target and request\<close>

text \<open>
  Claim C1. In every run in which proxying is enabled, the connect target chosen (the
  variables \<open>connectTo\<close>, \<open>connectPort\<close>) is the proxy's host and port, and the request
  built is exactly \<open>GET http://{host}/{path} HTTP/1.1\<close>, \<open>Host: {host}\<close>,
  \<open>Connection: close\<close> and an empty line, each ended by CR LF, where host and path are
  parsed from the URL read from standard input: the \<open>Host\<close> header names the origin.
  The request is not truncated by \<open>snprintf\<close>, as the URL has at most 1023 characters.
  The run passes that target to the connector and that request to the one \<open>send\<close>.
\<close>

theorem proxy_mode_target_and_request:
  assumes "scanf_s 1023 (os_stdin w) = Some buf"
    and "parse_url (c_str buf) = (host, site)"
    and "px = proxy_resolver (os_getenv w ''http_proxy'')"
    and "useProxy px"
  shows "connect_target px host = (proxyHost px, proxyPort px)
     \<and> build_request (useProxy px) host site
       = ''GET http://'' @ host @ ''/'' @ site @ '' HTTP/1.1'' @ crlf
         @ ''Host: '' @ host @ crlf @ ''Connection: close'' @ crlf @ crlf
     \<and> (\<exists>out0 out1. main w =
          (case connector w out0 (proxyHost px) (proxyPort px) of
             Inl exited \<Rightarrow> exited
           | Inr out \<Rightarrow>
               (case send_request w (out @ out1)
                  (''GET http://'' @ host @ ''/'' @ site @ '' HTTP/1.1'' @ crlf
                   @ ''Host: '' @ host @ crlf @ ''Connection: close'' @ crlf @ crlf) of
                  Inl exited \<Rightarrow> exited
                | Inr out \<Rightarrow> receive_response w out)))"
proof -
  have "length host + length site \<le> 1023"
    using assms(1,2) by (rule url_length)
  then have "length (''GET http://'' @ host @ ''/'' @ site @ '' HTTP/1.1'' @ crlf
         @ ''Host: '' @ host @ crlf @ ''Connection: close'' @ crlf @ crlf) < bufsz"
    by (simp add: crlf_def bufsz_def)
  then have request: "build_request (useProxy px) host site
       = ''GET http://'' @ host @ ''/'' @ site @ '' HTTP/1.1'' @ crlf
         @ ''Host: '' @ host @ crlf @ ''Connection: close'' @ crlf @ crlf"
    using assms(4) by (simp add: build_request_def snprintf_fits)
  have target: "connect_target px host = (proxyHost px, proxyPort px)"
    using assms(4) by (simp add: connect_target_def)
  show ?thesis
    using target request main_phases [OF assms(1,2,3) target] by (simp only: simp_thms)
qed

theorem proxy_mode_target_and_request_witness:
  "scanf_s 1023
       (os_stdin (example_os\<lparr>os_getenv := (\<lambda>name. Some ''http://proxy.example:8080'')\<rparr>))
     = Some ''http://example.com/index.html''
   \<and> parse_url (c_str ''http://example.com/index.html'') = (''example.com'', ''index.html'')
   \<and> useProxy (proxy_resolver
        (os_getenv (example_os\<lparr>os_getenv := (\<lambda>name. Some ''http://proxy.example:8080'')\<rparr>)
           ''http_proxy''))
   \<and> connect_target (proxy_resolver
        (os_getenv (example_os\<lparr>os_getenv := (\<lambda>name. Some ''http://proxy.example:8080'')\<rparr>)
           ''http_proxy'')) ''example.com''
       = (''proxy.example'', 8080)
   \<and> build_request True ''example.com'' ''index.html''
       = ''GET http://example.com/index.html HTTP/1.1'' @ crlf
         @ ''Host: example.com'' @ crlf @ ''Connection: close'' @ crlf @ crlf"
proof -
  let ?w = "example_os\<lparr>os_getenv := (\<lambda>name. Some ''http://proxy.example:8080'')\<rparr>"
  let ?px = "proxy_resolver (os_getenv ?w ''http_proxy'')"
  have input: "scanf_s 1023 (os_stdin ?w) = Some ''http://example.com/index.html''"
    using scanf_example by (simp add: example_os_def)
  have px: "?px = \<lparr>useProxy = True, proxyHost = ''proxy.example'', proxyPort = 8080\<rparr>"
    using proxy_example by simp
  then have enabled: "useProxy ?px"
    by simp
  have "connect_target ?px ''example.com'' = (proxyHost ?px, proxyPort ?px)
     \<and> build_request (useProxy ?px) ''example.com'' ''index.html''
       = ''GET http://'' @ ''example.com'' @ ''/'' @ ''index.html'' @ '' HTTP/1.1'' @ crlf
         @ ''Host: '' @ ''example.com'' @ crlf @ ''Connection: close'' @ crlf @ crlf"
    using proxy_mode_target_and_request [OF input parse_example refl enabled] by blast
  then show ?thesis
    using input parse_example enabled by (simp add: proxy_example)
qed

text \<open>
  Claim C2. In every run in which proxying is disabled, the connect target chosen is
  the origin host and port 80, and the request built is exactly \<open>GET /{path} HTTP/1.1\<close>,
  \<open>Host: {host}:80\<close>, \<open>Connection: close\<close> and an empty line, each ended by CR LF,
  where host and path are parsed from the URL read from standard input. The run
  passes that target to the connector and that request to the one \<open>send\<close>.
\<close>

theorem direct_mode_target_and_request:
  assumes "scanf_s 1023 (os_stdin w) = Some buf"
    and "parse_url (c_str buf) = (host, site)"
    and "px = proxy_resolver (os_getenv w ''http_proxy'')"
    and "\<not> useProxy px"
  shows "connect_target px host = (host, 80)
     \<and> build_request (useProxy px) host site
       = ''GET /'' @ site @ '' HTTP/1.1'' @ crlf
         @ ''Host: '' @ host @ '':80'' @ crlf @ ''Connection: close'' @ crlf @ crlf
     \<and> (\<exists>out0 out1. main w =
          (case connector w out0 host 80 of
             Inl exited \<Rightarrow> exited
           | Inr out \<Rightarrow>
               (case send_request w (out @ out1)
                  (''GET /'' @ site @ '' HTTP/1.1'' @ crlf
                   @ ''Host: '' @ host @ '':80'' @ crlf @ ''Connection: close'' @ crlf @ crlf) of
                  Inl exited \<Rightarrow> exited
                | Inr out \<Rightarrow> receive_response w out)))"
proof -
  have "length host + length site \<le> 1023"
    using assms(1,2) by (rule url_length)
  then have "length (''GET /'' @ site @ '' HTTP/1.1'' @ crlf
         @ ''Host: '' @ host @ '':80'' @ crlf @ ''Connection: close'' @ crlf @ crlf) < bufsz"
    by (simp add: crlf_def bufsz_def)
  then have request: "build_request (useProxy px) host site
       = ''GET /'' @ site @ '' HTTP/1.1'' @ crlf
         @ ''Host: '' @ host @ '':80'' @ crlf @ ''Connection: close'' @ crlf @ crlf"
    using assms(4) by (simp add: build_request_def snprintf_fits)
  have target: "connect_target px host = (host, 80)"
    using assms(4) by (simp add: connect_target_def)
  show ?thesis
    using target request main_phases [OF assms(1,2,3) target] by (simp only: simp_thms)
qed

theorem direct_mode_target_and_request_witness:
  "scanf_s 1023 (os_stdin example_os) = Some ''http://example.com/index.html''
   \<and> parse_url (c_str ''http://example.com/index.html'') = (''example.com'', ''index.html'')
   \<and> \<not> useProxy (proxy_resolver (os_getenv example_os ''http_proxy''))
   \<and> connect_target (proxy_resolver (os_getenv example_os ''http_proxy'')) ''example.com''
       = (''example.com'', 80)
   \<and> build_request False ''example.com'' ''index.html''
       = ''GET /index.html HTTP/1.1'' @ crlf
         @ ''Host: example.com:80'' @ crlf @ ''Connection: close'' @ crlf @ crlf"
proof -
  let ?px = "proxy_resolver (os_getenv example_os ''http_proxy'')"
  have input: "scanf_s 1023 (os_stdin example_os) = Some ''http://example.com/index.html''"
    using scanf_example by (simp add: example_os_def)
  have px: "?px = \<lparr>useProxy = False, proxyHost = [], proxyPort = 0\<rparr>"
    using no_proxy_example by (simp add: example_os_def)
  then have disabled: "\<not> useProxy ?px"
    by simp
  have "connect_target ?px ''example.com'' = (''example.com'', 80)
     \<and> build_request (useProxy ?px) ''example.com'' ''index.html''
       = ''GET /'' @ ''index.html'' @ '' HTTP/1.1'' @ crlf
         @ ''Host: '' @ ''example.com'' @ '':80'' @ crlf @ ''Connection: close'' @ crlf @ crlf"
    using direct_mode_target_and_request [OF input parse_example refl disabled] by blast
  then show ?thesis
    using input parse_example disabled by (simp add: px)
qed

section \<open>The proxy resolver\<close>

text \<open>
  Claim C3, as the program does it. For every value of \<open>http_proxy\<close>, or its absence,
  the resolver yields enabled with host \<open>h\<close> and port \<open>port\<close> exactly when the value is
  \<open>http://\<close>, then \<open>h\<close> free of colons, then a colon, then a text that is read as the
  port \<open>port\<close>, above zero. The text is read as \<open>atoi\<close> reads it: after white space and
  one sign, its leading decimal digits give the value, what follows them is ignored,
  and the value is reduced to a 32-bit \<open>int\<close>. Every other value (none, no scheme, no
  colon, a text read as zero or less, as one without leading digits is) yields
  disabled; that is no error: the connect target is then the origin host and port 80.
\<close>

theorem proxy_resolver_enabled_iff:
  "((useProxy (proxy_resolver env) \<and> proxyHost (proxy_resolver env) = h
       \<and> proxyPort (proxy_resolver env) = port)
     \<longleftrightarrow> (\<exists>r. env = Some (''http://'' @ h @ '':'' @ r) \<and> CHR '':'' \<notin> set h
            \<and> port_read r = port \<and> 0 < port))
   \<and> (\<not> useProxy (proxy_resolver env)
        \<longrightarrow> connect_target (proxy_resolver env) host = (host, 80))"
  (is "(?enabled \<longleftrightarrow> ?form) \<and> ?fallback")
proof (rule conjI)
  show "?enabled \<longleftrightarrow> ?form"
  proof (rule iffI)
    assume a: ?enabled
    then obtain h' r where env: "env = Some (''http://'' @ h' @ '':'' @ r)"
      and h': "CHR '':'' \<notin> set h'"
      using proxy_resolver_enabled by blast
    have "proxy_resolver env
        = \<lparr>useProxy = (0 < atoi r), proxyHost = h', proxyPort = atoi r\<rparr>"
      unfolding env using h' by (rule proxy_resolver_form)
    then have "h' = h \<and> port_read r = port \<and> 0 < port"
      using a by (simp add: atoi_port_read)
    then show ?form
      using env h' by blast
  next
    assume ?form
    then obtain r where env: "env = Some (''http://'' @ h @ '':'' @ r)"
      and h: "CHR '':'' \<notin> set h" and r: "port_read r = port" "0 < port"
      by blast
    have "proxy_resolver env
        = \<lparr>useProxy = (0 < atoi r), proxyHost = h, proxyPort = atoi r\<rparr>"
      unfolding env using h by (rule proxy_resolver_form)
    then show ?enabled
      using r by (simp add: atoi_port_read)
  qed
next
  show ?fallback
    by (simp add: connect_target_def)
qed

theorem proxy_resolver_enabled_iff_witness:
  "useProxy (proxy_resolver (Some ''http://proxy.example:8080''))
   \<and> proxyHost (proxy_resolver (Some ''http://proxy.example:8080'')) = ''proxy.example''
   \<and> proxyPort (proxy_resolver (Some ''http://proxy.example:8080'')) = 8080
   \<and> \<not> useProxy (proxy_resolver (Some ''proxy.example:8080''))
   \<and> connect_target (proxy_resolver (Some ''proxy.example:8080'')) ''example.com''
       = (''example.com'', 80)
   \<and> \<not> useProxy (proxy_resolver (Some ''http://proxy.example''))
   \<and> \<not> useProxy (proxy_resolver (Some ''http://proxy.example:port''))
   \<and> \<not> useProxy (proxy_resolver (Some ''http://proxy.example:-8080''))
   \<and> \<not> useProxy (proxy_resolver None)"
proof -
  note iff = proxy_resolver_enabled_iff
  have "\<exists>r. Some ''http://proxy.example:8080'' = Some (''http://'' @ ''proxy.example'' @ '':'' @ r)
      \<and> CHR '':'' \<notin> set ''proxy.example'' \<and> port_read r = 8080 \<and> (0::int) < 8080"
    by (intro exI [of _ "''8080''"]) (simp add: port_read_examples)
  then have enabled: "useProxy (proxy_resolver (Some ''http://proxy.example:8080''))
   \<and> proxyHost (proxy_resolver (Some ''http://proxy.example:8080'')) = ''proxy.example''
   \<and> proxyPort (proxy_resolver (Some ''http://proxy.example:8080'')) = 8080"
    using iff [of "Some ''http://proxy.example:8080''" "''proxy.example''" 8080]
    by blast
  have no_form: "\<not> (\<exists>r. env = Some (''http://'' @ h @ '':'' @ r) \<and> CHR '':'' \<notin> set h
      \<and> port_read r = port \<and> 0 < port) \<Longrightarrow> \<not> useProxy (proxy_resolver env)"
    if "h = proxyHost (proxy_resolver env)" and "port = proxyPort (proxy_resolver env)"
    for env h port
    using iff [of env h port] that by blast
  have off: "\<not> useProxy (proxy_resolver (Some ''proxy.example:8080''))"
    by (rule no_form [OF refl refl]) simp
  then have direct: "connect_target (proxy_resolver (Some ''proxy.example:8080'')) ''example.com''
       = (''example.com'', 80)"
    using iff [of "Some ''proxy.example:8080''" h port "''example.com''"]
    by blast
  have missing: "\<not> useProxy (proxy_resolver None)"
    by (rule no_form [OF refl refl]) simp
  have others: "\<not> useProxy (proxy_resolver (Some ''http://proxy.example''))"
    "\<not> useProxy (proxy_resolver (Some ''http://proxy.example:port''))"
    "\<not> useProxy (proxy_resolver (Some ''http://proxy.example:-8080''))"
    by (simp_all add: proxy_resolver_def strncmp_eq_take atoi_port_read port_read_examples)
  show ?thesis
    using enabled off direct others missing by blast
qed

text \<open>
  Claim C3 as stated fails both ways. \<open>4294967296\<close> is a sequence of digits that denotes
  an integer above zero, and proxying stays disabled; \<open>80abc\<close> is not numeric, and
  proxying is enabled with port 80.
\<close>

theorem proxy_resolver_port_text:
  "list_all isdigit ''4294967296''
   \<and> decimal ''4294967296'' = 4294967296
   \<and> proxy_resolver (Some ''http://h:4294967296'')
       = \<lparr>useProxy = False, proxyHost = ''h'', proxyPort = 0\<rparr>
   \<and> \<not> list_all isdigit ''80abc''
   \<and> proxy_resolver (Some ''http://h:80abc'')
       = \<lparr>useProxy = True, proxyHost = ''h'', proxyPort = 80\<rparr>"
  by (simp add: proxy_resolver_def strncmp_eq_take atoi_port_read port_read_examples
      decimal_def isdigit_def digit_val_def)

section \<open>The URL parser\<close>

text \<open>
  Claim C4. For every URL string the parser strips a leading \<open>http://\<close> if there is one
  and splits the remainder at its first \<open>/\<close>: the host is everything before it, the path
  everything after it; a remainder without \<open>/\<close> is the host as a whole, with the empty
  path. In particular \<open>http://h/p\<close>, with \<open>h\<close> the text up to the first \<open>/\<close>, is parsed to
  host \<open>h\<close> and path \<open>p\<close>.
\<close>

theorem parse_url_split:
  "(let remainder = (if prefix ''http://'' url then drop 7 url else url);
        (host, site) = parse_url url
    in if CHR ''/'' \<in> set remainder
       then remainder = host @ ''/'' @ site \<and> CHR ''/'' \<notin> set host
       else host = remainder \<and> site = [])
   \<and> (CHR ''/'' \<notin> set h \<longrightarrow> parse_url (''http://'' @ h @ ''/'' @ p) = (h, p))"
proof
  define remainder where "remainder = (if prefix ''http://'' url then drop 7 url else url)"
  have parse: "parse_url url = split_at (strchr remainder (CHR ''/'')) remainder"
    unfolding remainder_def by (rule parse_url_strchr)
  obtain host site where hs: "parse_url url = (host, site)"
    by (cases "parse_url url")
  have "if CHR ''/'' \<in> set remainder
        then remainder = host @ ''/'' @ site \<and> CHR ''/'' \<notin> set host
        else host = remainder \<and> site = []"
    using split_at_strchr [of remainder "CHR ''/''" host site] hs parse by simp
  then show "let remainder = (if prefix ''http://'' url then drop 7 url else url);
        (host, site) = parse_url url
    in if CHR ''/'' \<in> set remainder
       then remainder = host @ ''/'' @ site \<and> CHR ''/'' \<notin> set host
       else host = remainder \<and> site = []"
    unfolding remainder_def [symmetric] Let_def hs by simp
next
  show "CHR ''/'' \<notin> set h \<longrightarrow> parse_url (''http://'' @ h @ ''/'' @ p) = (h, p)"
  proof
    assume h: "CHR ''/'' \<notin> set h"
    have "strchr (h @ CHR ''/'' # p) (CHR ''/'') = Some (length h)"
      using h by (rule strchr_append)
    then show "parse_url (''http://'' @ h @ ''/'' @ p) = (h, p)"
      by (simp add: parse_url_def split_at_def strncmp_eq_take)
  qed
qed

theorem parse_url_split_witness:
  "parse_url ''http://example.com/a/b.html'' = (''example.com'', ''a/b.html'')
   \<and> parse_url ''example.com'' = (''example.com'', [])"
proof -
  have "parse_url (''http://'' @ ''example.com'' @ ''/'' @ ''a/b.html'')
      = (''example.com'', ''a/b.html'')"
    using parse_url_split [of "''example.com''" "''example.com''" "''a/b.html''"]
    by simp
  moreover have "parse_url ''example.com'' = (''example.com'', [])"
    using parse_url_split [of "''example.com''" "''example.com''" "''a/b.html''"]
    by (simp add: Let_def case_prod_beta prod_eq_iff)
  ultimately show ?thesis by simp
qed

text \<open>
  Claim C5. For every URL whose remainder (after the optional \<open>http://\<close>) holds no \<open>/\<close>,
  and for every URL whose remainder is a host followed by a single \<open>/\<close> and nothing
  else, the parsed path is empty and the request of the direct mode starts with the
  line \<open>GET / HTTP/1.1\<close>, not with \<open>GET  HTTP/1.1\<close> or \<open>GET // HTTP/1.1\<close>.
\<close>

theorem empty_path_request_line:
  assumes "parse_url url = (host, site)"
    and "remainder = (if prefix ''http://'' url then drop 7 url else url)"
    and "CHR ''/'' \<notin> set remainder \<or> (\<exists>h. remainder = h @ ''/'' \<and> CHR ''/'' \<notin> set h)"
  shows "site = []
    \<and> prefix (''GET / HTTP/1.1'' @ crlf) (build_request False host site)
    \<and> \<not> prefix ''GET  HTTP/1.1'' (build_request False host site)
    \<and> \<not> prefix ''GET // HTTP/1.1'' (build_request False host site)"
proof -
  have split: "split_at (strchr remainder (CHR ''/'')) remainder = (host, site)"
    using assms(1) unfolding assms(2) parse_url_strchr by simp
  note first = split_at_strchr [OF split]
  have site: "site = []"
  proof (cases "CHR ''/'' \<in> set remainder")
    case False
    then show ?thesis using first by simp
  next
    case True
    then obtain h where h: "remainder = h @ ''/''" "CHR ''/'' \<notin> set h"
      using assms(3) by blast
    have "h @ CHR ''/'' # [] = host @ CHR ''/'' # site \<and> CHR ''/'' \<notin> set host"
      using first True h(1) by simp
    then show ?thesis
      using h(2) first_split_unique [of "CHR ''/''" h host "[]" site] by simp
  qed
  have line: "prefix (''GET / HTTP/1.1'' @ crlf) (build_request False host [])"
    using snprintf_prefix [of "''GET / HTTP/1.1'' @ crlf" bufsz
        "''Host: '' @ host @ '':80'' @ crlf @ ''Connection: close'' @ crlf @ crlf"]
    by (simp add: build_request_def bufsz_def crlf_def)
  then have "\<not> prefix ''GET  HTTP/1.1'' (build_request False host [])"
    and "\<not> prefix ''GET // HTTP/1.1'' (build_request False host [])"
    by (auto simp: prefix_def crlf_def)
  then show ?thesis
    using site line by simp
qed

theorem empty_path_request_line_witness:
  "parse_url ''http://example.com/'' = (''example.com'', [])
   \<and> parse_url ''example.com'' = (''example.com'', [])
   \<and> prefix (''GET / HTTP/1.1'' @ crlf) (build_request False ''example.com'' [])"
proof -
  have p1: "parse_url ''http://example.com/'' = (''example.com'', [])"
    and p2: "parse_url ''example.com'' = (''example.com'', [])"
    by (simp_all add: parse_url_def split_at_def strncmp_eq_take strlen_def)
  have "CHR ''/'' \<notin> set ''example.com''
      \<or> (\<exists>h. ''example.com'' = h @ ''/'' \<and> CHR ''/'' \<notin> set h)"
    by simp
  then have "prefix (''GET / HTTP/1.1'' @ crlf) (build_request False ''example.com'' [])"
    using empty_path_request_line [OF p2, of "''example.com''"] by simp
  moreover have "\<exists>h. ''example.com/'' = h @ ''/'' \<and> CHR ''/'' \<notin> set h"
    by (intro exI [of _ "''example.com''"]) simp
  then have "prefix (''GET / HTTP/1.1'' @ crlf) (build_request False ''example.com'' [])"
    using empty_path_request_line [OF p1, of "''example.com/''"] by simp
  ultimately show ?thesis
    using p1 p2 by simp
qed

section \<open>The transceiver\<close>

text \<open>
  Claim C6, as the program does it. The chunks \<open>ds\<close> are what successive reads deliver:
  each not empty and of at most \<open>bufsz - 2\<close> bytes. The loop prints of every chunk the
  bytes before its first NUL byte (\<open>printf("%s")\<close> on the terminated buffer), so a chunk
  without a NUL byte is printed verbatim, headers included. It ends at the first read
  of zero bytes, after which the run finishes with status 0; a negative read result
  ends it in \<open>perr_exit\<close> with nothing further of the response printed; a peer that
  neither sends nor closes leaves the run waiting in \<open>recv\<close>.
\<close>

theorem receive_response_prints:
  assumes "\<forall>d \<in> set ds. d \<noteq> [] \<and> length d \<le> bufsz - 2"
  shows "(os_stream w = map Bytes ds @ Eof # es \<longrightarrow>
        receive_response w out
          = Exit (out @ response_header @ concat (map c_str ds) @ response_trailer) 0)
     \<and> (os_stream w = map Bytes ds @ Error # es \<longrightarrow>
        receive_response w out
          = perr_exit (out @ response_header @ concat (map c_str ds))
              ''Error receiving data'' (WSAGetLastError w Recv))
     \<and> (os_stream w = map Bytes ds \<longrightarrow>
        receive_response w out = Blocked (out @ response_header @ concat (map c_str ds)))
     \<and> ((\<forall>d \<in> set ds. NUL \<notin> set d) \<longrightarrow> concat (map c_str ds) = concat ds)"
  using receive_response_chunks [OF assms] concat_c_str by blast

theorem receive_response_prints_witness:
  "receive_response example_os []
     = Exit (response_header @ ''HTTP/1.1 200 OK'' @ crlf @ crlf @ ''hello'' @ response_trailer) 0"
proof -
  let ?d = "''HTTP/1.1 200 OK'' @ crlf @ crlf @ ''hello''"
  have chunk: "\<forall>d \<in> set [?d]. d \<noteq> [] \<and> length d \<le> bufsz - 2"
    by (simp add: bufsz_def crlf_def)
  have stream: "os_stream example_os = map Bytes [?d] @ Eof # []"
    by (simp add: example_os_def)
  have clean: "\<forall>d \<in> set [?d]. NUL \<notin> set d"
    by (simp add: NUL_def crlf_def CR_def LF_def)
  show ?thesis
    using receive_response_prints [OF chunk, of example_os "[]" "[]"] stream clean
    by simp
qed

text \<open>
  Claim C6 as stated fails on a chunk that holds a NUL byte: of the five bytes
  \<open>a b NUL c d\<close> only \<open>ab\<close> is printed.
\<close>

theorem receive_response_stops_at_NUL:
  "receive_response (example_os\<lparr>os_stream := [Bytes (''ab'' @ [NUL] @ ''cd''), Eof]\<rparr>) []
     = Exit (response_header @ ''ab'' @ response_trailer) 0
   \<and> receive_response (example_os\<lparr>os_stream := [Bytes (''ab'' @ [NUL] @ ''cd''), Eof]\<rparr>) []
     \<noteq> Exit (response_header @ (''ab'' @ [NUL] @ ''cd'') @ response_trailer) 0"
proof -
  let ?d = "''ab'' @ [NUL] @ ''cd''"
  let ?w = "example_os\<lparr>os_stream := [Bytes ?d, Eof]\<rparr>"
  have chunk: "\<forall>d \<in> set [?d]. d \<noteq> [] \<and> length d \<le> bufsz - 2"
    by (simp add: bufsz_def)
  have stream: "os_stream ?w = map Bytes [?d] @ Eof # []"
    by simp
  have "receive_response ?w []
      = Exit ([] @ response_header @ concat (map c_str [?d]) @ response_trailer) 0"
    using chunk stream by (rule receive_response_chunks(1))
  moreover have "c_str ?d = ''ab''"
    by (simp add: c_str_def NUL_def)
  ultimately show ?thesis
    by simp
qed

text \<open>
  Claim C7. The request is handed to one \<open>send\<close> call as a whole, with its full length.
  When that call accepts fewer bytes than the request has, the program ends in
  \<open>perr_exit\<close> with the message \<open>Cannot send data\<close> and the error code of the system;
  it goes on to the receive phase only when the whole request was accepted, and
  \<open>send\<close> never accepts more. So a run that has connected ends in that error when
  the socket accepts less than the request, and otherwise goes on to receive.
\<close>

theorem send_request_all_or_fatal:
  "(send w send_buf (strlen send_buf) < int (length send_buf) \<longrightarrow>
      send_request w out send_buf
        = Inl (perr_exit out ''Cannot send data'' (WSAGetLastError w Send)))
   \<and> (send w send_buf (strlen send_buf) = int (length send_buf) \<longrightarrow>
      send_request w out send_buf = Inr (out @ ''        Request sent successfully.'' @ [LF]))
   \<and> send w send_buf (strlen send_buf) \<le> int (length send_buf)
   \<and> (send w send_buf (strlen send_buf) < int (length send_buf)
        \<longleftrightarrow> os_send_accepts w < int (length send_buf))
   \<and> (scanf_s 1023 (os_stdin w) = Some buf \<and> parse_url (c_str buf) = (host, site)
      \<and> px = proxy_resolver (os_getenv w ''http_proxy'')
      \<and> connect_target px host = (connectTo, connectPort)
      \<and> resolve w connectTo = Some a \<and> 0 \<le> os_socket w
      \<and> os_connect w a (htons connectPort) = 0 \<longrightarrow>
        (os_send_accepts w < int (length (build_request (useProxy px) host site)) \<longrightarrow>
           (\<exists>out. main w = perr_exit out ''Cannot send data'' (WSAGetLastError w Send)))
        \<and> (int (length (build_request (useProxy px) host site)) \<le> os_send_accepts w \<longrightarrow>
           (\<exists>out. main w = receive_response w out)))"
proof -
  have phase: "(send w send_buf (strlen send_buf) < int (length send_buf) \<longrightarrow>
      send_request w out send_buf
        = Inl (perr_exit out ''Cannot send data'' (WSAGetLastError w Send)))
   \<and> (send w send_buf (strlen send_buf) = int (length send_buf) \<longrightarrow>
      send_request w out send_buf = Inr (out @ ''        Request sent successfully.'' @ [LF]))
   \<and> send w send_buf (strlen send_buf) \<le> int (length send_buf)
   \<and> (send w send_buf (strlen send_buf) < int (length send_buf)
        \<longleftrightarrow> os_send_accepts w < int (length send_buf))"
    by (auto simp: send_request_def send_def strlen_def)
  show ?thesis
    using phase main_send [of w buf host site px connectTo connectPort a] by blast
qed

theorem send_request_all_or_fatal_witness:
  "send (example_os\<lparr>os_send_accepts := 10, os_errno := (\<lambda>call. 32)\<rparr>)
       (build_request False ''example.com'' ''index.html'')
       (strlen (build_request False ''example.com'' ''index.html''))
     < int (length (build_request False ''example.com'' ''index.html''))
   \<and> send_request (example_os\<lparr>os_send_accepts := 10, os_errno := (\<lambda>call. 32)\<rparr>) []
       (build_request False ''example.com'' ''index.html'')
     = Inl (Exit (''ERROR: Cannot send data (code 32)'' @ [LF]) 32)
   \<and> send_request example_os [] (build_request False ''example.com'' ''index.html'')
     = Inr (''        Request sent successfully.'' @ [LF])
   \<and> (\<exists>out. main (example_os\<lparr>os_send_accepts := 10, os_errno := (\<lambda>call. 32)\<rparr>)
        = Exit (out @ ''ERROR: Cannot send data (code 32)'' @ [LF]) 32)
   \<and> (\<exists>out. main example_os = receive_response example_os out)"
proof -
  let ?req = "build_request False ''example.com'' ''index.html''"
  let ?w = "example_os\<lparr>os_send_accepts := 10, os_errno := (\<lambda>call. 32)\<rparr>"
  let ?a = "(93, 184, 216, 34) :: in_addr"
  have len: "length ?req = 69"
    by (simp add: build_request_def snprintf_def bufsz_def crlf_def)
  have short: "send ?w ?req (strlen ?req) < int (length ?req)"
    by (simp add: send_def len strlen_def)
  have full: "send example_os ?req (strlen ?req) = int (length ?req)"
    by (simp add: send_def len strlen_def example_os_def)
  have "send_request ?w [] ?req = Inl (perr_exit [] ''Cannot send data'' (WSAGetLastError ?w Send))"
    using send_request_all_or_fatal [of ?w ?req "[]"] short by blast
  moreover have "send_request example_os [] ?req
      = Inr ([] @ ''        Request sent successfully.'' @ [LF])"
    using send_request_all_or_fatal [of example_os ?req "[]"] full by blast
  ultimately have phase: "send_request ?w [] ?req
        = Inl (Exit (''ERROR: Cannot send data (code 32)'' @ [LF]) 32)
      \<and> send_request example_os [] ?req = Inr (''        Request sent successfully.'' @ [LF])"
    by (simp add: perr_exit_def WSAGetLastError_def show_int_examples)
  have px: "proxy_resolver (os_getenv example_os ''http_proxy'')
      = \<lparr>useProxy = False, proxyHost = [], proxyPort = 0\<rparr>"
    using no_proxy_example by (simp add: example_os_def)
  have run: "scanf_s 1023 (os_stdin w) = Some ''http://example.com/index.html''
      \<and> parse_url (c_str ''http://example.com/index.html'') = (''example.com'', ''index.html'')
      \<and> proxy_resolver (os_getenv w ''http_proxy'') = proxy_resolver (os_getenv w ''http_proxy'')
      \<and> connect_target (proxy_resolver (os_getenv w ''http_proxy'')) ''example.com''
          = (''example.com'', 80)
      \<and> resolve w ''example.com'' = Some ?a \<and> 0 \<le> os_socket w
      \<and> os_connect w ?a (htons 80) = 0"
    if "w = ?w \<or> w = example_os" for w
    using that scanf_example parse_example
    by (auto simp: px connect_target_def) (simp_all add: example_os_def resolve_def)
  have "os_send_accepts ?w < int (length (build_request
      (useProxy (proxy_resolver (os_getenv ?w ''http_proxy''))) ''example.com'' ''index.html''))"
    by (simp add: px len)
  then have "\<exists>out. main ?w = perr_exit out ''Cannot send data'' (WSAGetLastError ?w Send)"
    using send_request_all_or_fatal [where w = ?w and buf = "''http://example.com/index.html''"
        and host = "''example.com''" and site = "''index.html''"
        and px = "proxy_resolver (os_getenv ?w ''http_proxy'')"
        and connectTo = "''example.com''" and connectPort = 80 and a = ?a] run [of ?w]
    by blast
  then have failed: "\<exists>out. main ?w = Exit (out @ ''ERROR: Cannot send data (code 32)'' @ [LF]) 32"
    by (simp add: perr_exit_def WSAGetLastError_def show_int_examples)
  have "int (length (build_request
      (useProxy (proxy_resolver (os_getenv example_os ''http_proxy''))) ''example.com''
      ''index.html'')) \<le> os_send_accepts example_os"
    by (simp add: px len) (simp add: example_os_def)
  then have "\<exists>out. main example_os = receive_response example_os out"
    using send_request_all_or_fatal [where w = example_os
        and buf = "''http://example.com/index.html''"
        and host = "''example.com''" and site = "''index.html''"
        and px = "proxy_resolver (os_getenv example_os ''http_proxy'')"
        and connectTo = "''example.com''" and connectPort = 80 and a = ?a] run [of example_os]
    by blast
  then show ?thesis
    using short phase failed by blast
qed

section \<open>Fatal errors\<close>

text \<open>
  Claim C8, as the program does it. For each fatal error (the address is not resolved,
  the socket is not created, the connection is not made, the request is not sent as a
  whole, a read fails) the program prints \<open>ERROR: {message} (code {c})\<close> with the error
  code \<open>c\<close> of the system, which is \<open>errno\<close>, and ends by \<open>exit(c)\<close>: the exit status is
  that same code, whatever its sign. No other code is put in its place. Every run
  that ends, ends with status 0 after the whole response or in one of these ways (or
  with \<open>-1\<close> when no URL could be read).
\<close>

theorem fatal_errors_exit_code:
  "(resolve w connectTo = None \<longrightarrow>
      (\<exists>out'. connector w out connectTo connectPort
         = Inl (perr_exit out' ''Cannot resolve connectTo'' (WSAGetLastError w Gethostbyname))))
   \<and> (resolve w connectTo = Some a \<and> os_socket w < 0 \<longrightarrow>
      (\<exists>out'. connector w out connectTo connectPort
         = Inl (perr_exit out' ''Cannot create socket'' (WSAGetLastError w Socket))))
   \<and> (resolve w connectTo = Some a \<and> 0 \<le> os_socket w
        \<and> os_connect w a (htons connectPort) \<noteq> 0 \<longrightarrow>
      (\<exists>out'. connector w out connectTo connectPort
         = Inl (perr_exit out' ''Cannot connect'' (WSAGetLastError w Connect))))
   \<and> (send w send_buf (strlen send_buf) < int (strlen send_buf) \<longrightarrow>
      send_request w out send_buf
        = Inl (perr_exit out ''Cannot send data'' (WSAGetLastError w Send)))
   \<and> (recv_loop (os_stream w) (replicate bufsz NUL) (out @ response_header) = Rx_end rc out'
        \<and> rc < 0 \<longrightarrow>
      receive_response w out
        = perr_exit out' ''Error receiving data'' (WSAGetLastError w Recv))
   \<and> WSAGetLastError w call = os_errno w call
   \<and> perr_exit out msg code
       = Exit (out @ ''ERROR: '' @ msg @ '' (code '' @ show_int code @ '')'' @ [LF]) code
   \<and> ((\<exists>out. main w = Blocked out)
      \<or> (\<exists>out. main w = Exit (out @ response_trailer) 0)
      \<or> (\<exists>out. main w = perr_exit out ''Failed to read URL'' (- 1))
      \<or> (\<exists>out. main w
            = perr_exit out ''Cannot resolve connectTo'' (WSAGetLastError w Gethostbyname))
      \<or> (\<exists>out. main w = perr_exit out ''Cannot create socket'' (WSAGetLastError w Socket))
      \<or> (\<exists>out. main w = perr_exit out ''Cannot connect'' (WSAGetLastError w Connect))
      \<or> (\<exists>out. main w = perr_exit out ''Cannot send data'' (WSAGetLastError w Send))
      \<or> (\<exists>out. main w = perr_exit out ''Error receiving data'' (WSAGetLastError w Recv)))"
proof (intro conjI impI)
  show "(\<exists>out. main w = Blocked out)
      \<or> (\<exists>out. main w = Exit (out @ response_trailer) 0)
      \<or> (\<exists>out. main w = perr_exit out ''Failed to read URL'' (- 1))
      \<or> (\<exists>out. main w
            = perr_exit out ''Cannot resolve connectTo'' (WSAGetLastError w Gethostbyname))
      \<or> (\<exists>out. main w = perr_exit out ''Cannot create socket'' (WSAGetLastError w Socket))
      \<or> (\<exists>out. main w = perr_exit out ''Cannot connect'' (WSAGetLastError w Connect))
      \<or> (\<exists>out. main w = perr_exit out ''Cannot send data'' (WSAGetLastError w Send))
      \<or> (\<exists>out. main w = perr_exit out ''Error receiving data'' (WSAGetLastError w Recv))"
    by (rule main_outcomes)
  show "\<exists>out'. connector w out connectTo connectPort
      = Inl (perr_exit out' ''Cannot resolve connectTo'' (WSAGetLastError w Gethostbyname))"
    if "resolve w connectTo = None"
    using that by (rule connector_resolve_fails)
  show "\<exists>out'. connector w out connectTo connectPort
      = Inl (perr_exit out' ''Cannot create socket'' (WSAGetLastError w Socket))"
    if "resolve w connectTo = Some a \<and> os_socket w < 0"
    using that connector_socket_fails by blast
  show "\<exists>out'. connector w out connectTo connectPort
      = Inl (perr_exit out' ''Cannot connect'' (WSAGetLastError w Connect))"
    if "resolve w connectTo = Some a \<and> 0 \<le> os_socket w
        \<and> os_connect w a (htons connectPort) \<noteq> 0"
    using that connector_connect_fails by blast
  show "send_request w out send_buf
      = Inl (perr_exit out ''Cannot send data'' (WSAGetLastError w Send))"
    if "send w send_buf (strlen send_buf) < int (strlen send_buf)"
    using that by (simp add: send_request_def)
  show "receive_response w out
      = perr_exit out' ''Error receiving data'' (WSAGetLastError w Recv)"
    if "recv_loop (os_stream w) (replicate bufsz NUL) (out @ response_header) = Rx_end rc out'
        \<and> rc < 0"
    using that by (simp add: receive_response_def)
  show "WSAGetLastError w call = os_errno w call"
    by (simp add: WSAGetLastError_def)
  show "perr_exit out msg code
       = Exit (out @ ''ERROR: '' @ msg @ '' (code '' @ show_int code @ '')'' @ [LF]) code"
    by (simp add: perr_exit_def)
qed

theorem fatal_errors_exit_code_witness:
  "(\<exists>out'. connector (example_os\<lparr>os_socket := - 1, os_errno := (\<lambda>call. 24)\<rparr>) []
        ''example.com'' 80
      = Inl (Exit (out' @ ''ERROR: Cannot create socket (code 24)'' @ [LF]) 24))
   \<and> (\<exists>out'. connector (example_os\<lparr>os_connect := (\<lambda>a port. - 1), os_errno := (\<lambda>call. 111)\<rparr>) []
        ''example.com'' 80
      = Inl (Exit (out' @ ''ERROR: Cannot connect (code 111)'' @ [LF]) 111))
   \<and> (\<exists>out'. connector (example_os\<lparr>os_gethostbyname := (\<lambda>name. None)\<rparr>) []
        ''example.com'' 80
      = Inl (Exit (out' @ ''ERROR: Cannot resolve connectTo (code 0)'' @ [LF]) 0))
   \<and> send_request (example_os\<lparr>os_send_accepts := - 1, os_errno := (\<lambda>call. 104)\<rparr>) []
        ''GET / HTTP/1.1''
      = Inl (Exit (''ERROR: Cannot send data (code 104)'' @ [LF]) 104)
   \<and> receive_response (example_os\<lparr>os_stream := [Error], os_errno := (\<lambda>call. 104)\<rparr>) []
      = Exit (response_header @ ''ERROR: Error receiving data (code 104)'' @ [LF]) 104"
proof -
  let ?a = "(93, 184, 216, 34) :: in_addr"
  let ?w1 = "example_os\<lparr>os_socket := - 1, os_errno := (\<lambda>call. 24)\<rparr>"
  let ?w2 = "example_os\<lparr>os_connect := (\<lambda>a port. - 1), os_errno := (\<lambda>call. 111)\<rparr>"
  let ?w3 = "example_os\<lparr>os_gethostbyname := (\<lambda>name. None)\<rparr>"
  let ?w4 = "example_os\<lparr>os_send_accepts := - 1, os_errno := (\<lambda>call. 104)\<rparr>"
  let ?w5 = "example_os\<lparr>os_stream := [Error], os_errno := (\<lambda>call. 104)\<rparr>"
  have 1: "resolve ?w1 ''example.com'' = Some ?a \<and> os_socket ?w1 < 0"
    by (simp add: resolve_def example_os_def)
  have 2: "resolve ?w2 ''example.com'' = Some ?a \<and> 0 \<le> os_socket ?w2
      \<and> os_connect ?w2 ?a (htons 80) \<noteq> 0"
    by (simp add: resolve_def example_os_def)
  have 3: "resolve ?w3 ''example.com'' = None"
    by (simp add: resolve_def example_os_def)
  have 4: "send ?w4 ''GET / HTTP/1.1'' (strlen ''GET / HTTP/1.1'')
      < int (strlen ''GET / HTTP/1.1'')"
    by (simp add: send_def strlen_def)
  have 5: "recv_loop (os_stream ?w5) (replicate bufsz NUL) ([] @ response_header)
      = Rx_end (- 1) response_header \<and> (- 1 :: int) < 0"
    by (simp add: recv_loop_end)
  have e: "WSAGetLastError ?w1 Socket = 24" "WSAGetLastError ?w2 Connect = 111"
    "WSAGetLastError ?w3 Gethostbyname = 0" "WSAGetLastError ?w4 Send = 104"
    "WSAGetLastError ?w5 Recv = 104"
    by (simp_all add: WSAGetLastError_def example_os_def)
  show ?thesis
    using fatal_errors_exit_code [of ?w1 "''example.com''" "[]" 80 ?a] 1
      fatal_errors_exit_code [of ?w2 "''example.com''" "[]" 80 ?a] 2
      fatal_errors_exit_code [of ?w3 "''example.com''" "[]" 80] 3
      fatal_errors_exit_code [of ?w4 _ "[]" _ _ "''GET / HTTP/1.1''"] 4
      fatal_errors_exit_code [of ?w5 _ "[]" _ _ _ "- 1" response_header] 5
    by (simp add: e perr_exit_def show_int_examples)
qed

text \<open>
  Claim C8 as stated fails where the error code is not positive. \<open>gethostbyname\<close>
  reports through \<open>h_errno\<close> and may leave \<open>errno\<close> at 0: the run below prints the error
  and ends with exit status 0, the status of a run that succeeded.
\<close>

theorem exit_status_zero_on_error:
  "main (example_os\<lparr>os_gethostbyname := (\<lambda>name. None)\<rparr>)
     = Exit (''[Step 1] (Unix) No WSAStartup needed.'' @ [LF]
             @ ''[Step 2] Preparing address structure...'' @ [LF]
             @ ''[Step 3] Asking for URL...'' @ [LF]
             @ ''URL: ''
             @ ''[Step 4] Parsing URL...'' @ [LF]
             @ ''        Parsed Host: example.com'' @ [LF]
             @ ''        Parsed Site: index.html'' @ [LF]
             @ ''[DEBUG] No valid http_proxy found '' @ arrow @ '' connecting directly'' @ [LF]
             @ ''[Step 5] Resolving '' @ quoted ''example.com'' @ '' ...'' @ [LF]
             @ ''        inet_addr failed; calling gethostbyname for ''
             @ quoted ''example.com'' @ ''...'' @ [LF]
             @ ''ERROR: Cannot resolve connectTo (code 0)'' @ [LF]) 0"
proof -
  have input: "scanf_s 1023 (os_stdin example_os) = Some ''http://example.com/index.html''"
    using scanf_example by (simp add: example_os_def)
  have env: "os_getenv example_os ''http_proxy'' = None"
    and addr: "os_inet_addr example_os ''example.com'' = INADDR_NONE"
    and errno: "os_errno example_os Gethostbyname = 0"
    by (simp_all add: example_os_def)
  show ?thesis
    by (simp add: main_def input parse_example env proxy_resolver_def connect_target_def
        connector_def resolve_def addr Let_def perr_exit_def WSAGetLastError_def errno
        show_int_examples)
qed

section \<open>The receive buffer\<close>

text \<open>
  Claim C9. The buffer has 4096 cells and every \<open>recv\<close> call asks for at most 4094 bytes.
  So with \<open>recv_buf\<close> of that size \<open>recv\<close> never writes behind the buffer, every read
  returns \<open>rc \<le> 4094\<close>, the write of the terminator at index \<open>rc\<close> is inside the buffer,
  and the loop as a whole, and with it every run of the program, writes inside its
  buffers only.
\<close>

theorem recv_buf_in_bounds:
  "bufsz = 4096 \<and> bufsz - 2 = 4094
   \<and> (length recv_buf = bufsz \<longrightarrow>
        recv_loop es recv_buf out \<noteq> Rx_fault
        \<and> recv es recv_buf (bufsz - 2) \<noteq> Overruns
        \<and> (\<forall>rc buf es'. recv es recv_buf (bufsz - 2) = Returns rc buf es' \<longrightarrow>
              rc \<le> 4094 \<and> length buf = bufsz
              \<and> poke buf (nat rc) NUL = Some (buf[nat rc := NUL])))
   \<and> main w \<noteq> Fault"
proof (intro conjI impI allI)
  show "bufsz = 4096" and "bufsz - 2 = 4094"
    by (simp_all add: bufsz_def)
  show "main w \<noteq> Fault"
    by (rule main_no_fault)
next
  assume size: "length recv_buf = bufsz"
  show "recv_loop es recv_buf out \<noteq> Rx_fault"
    using size by (rule recv_loop_no_fault)
  show "recv es recv_buf (bufsz - 2) \<noteq> Overruns"
    using size by (rule recv_full_buffer(1))
  fix rc buf es'
  assume "recv es recv_buf (bufsz - 2) = Returns rc buf es'"
  then have bounds: "length buf = bufsz \<and> rc \<le> int (bufsz - 2)"
    using size recv_full_buffer(2) by blast
  then show "rc \<le> 4094" and "length buf = bufsz"
    by (simp_all add: bufsz_def)
  show "poke buf (nat rc) NUL = Some (buf[nat rc := NUL])"
    using bounds by (simp add: poke_terminator)
qed

theorem recv_buf_in_bounds_witness:
  "length (replicate bufsz NUL) = bufsz
   \<and> recv_loop [Bytes (replicate 5000 (CHR ''a'')), Eof] (replicate bufsz NUL) [] \<noteq> Rx_fault
   \<and> recv [Bytes (replicate 5000 (CHR ''a'')), Eof] (replicate bufsz NUL) (bufsz - 2)
       = Returns 4094 (replicate 4094 (CHR ''a'') @ replicate 2 NUL)
           [Bytes (replicate 906 (CHR ''a'')), Eof]
   \<and> poke (replicate 4094 (CHR ''a'') @ replicate 2 NUL) (nat 4094) NUL
       = Some ((replicate 4094 (CHR ''a'') @ replicate 2 NUL)[nat 4094 := NUL])"
proof -
  let ?es = "[Bytes (replicate 5000 (CHR ''a'')), Eof]"
  let ?buf = "replicate bufsz NUL"
  have size: "length ?buf = bufsz"
    by simp
  have call: "recv ?es ?buf (bufsz - 2)
      = Returns 4094 (replicate 4094 (CHR ''a'') @ replicate 2 NUL)
          [Bytes (replicate 906 (CHR ''a'')), Eof]"
    by (simp add: bufsz_def store_def)
  have loop: "recv_loop ?es ?buf [] \<noteq> Rx_fault"
    and calls: "\<forall>rc buf es'. recv ?es ?buf (bufsz - 2) = Returns rc buf es' \<longrightarrow>
        rc \<le> 4094 \<and> length buf = bufsz \<and> poke buf (nat rc) NUL = Some (buf[nat rc := NUL])"
    using recv_buf_in_bounds [of ?buf ?es "[]"] size by blast+
  have "poke (replicate 4094 (CHR ''a'') @ replicate 2 NUL) (nat 4094) NUL
       = Some ((replicate 4094 (CHR ''a'') @ replicate 2 NUL)[nat 4094 := NUL])"
    using calls call by blast
  then show ?thesis
    using size loop call by blast
qed

section \<open>The port of the proxy\<close>

text \<open>
  Claim C10, as the program does it. For every \<open>http_proxy\<close> value \<open>http://H:R\<close>, with
  \<open>H\<close> free of colons, where the digits at the start of \<open>R\<close> denote an integer above
  zero and not above 2147483647 (\<open>INT_MAX\<close>), the resolver enables proxying with host
  \<open>H\<close> and that integer as the port, whatever follows the digits in \<open>R\<close>.
\<close>

theorem proxy_port_leading_digits:
  assumes "CHR '':'' \<notin> set H"
    and "0 < decimal (takeWhile isdigit R)"
    and "decimal (takeWhile isdigit R) \<le> INT_MAX"
  shows "proxy_resolver (Some (''http://'' @ H @ '':'' @ R))
    = \<lparr>useProxy = True, proxyHost = H, proxyPort = decimal (takeWhile isdigit R)\<rparr>"
  using proxy_resolver_form [OF assms(1), of R] atoi_leading_digits [OF assms(2,3)] assms(2)
  by simp

theorem proxy_port_leading_digits_witness:
  "CHR '':'' \<notin> set ''h''
   \<and> decimal (takeWhile isdigit ''8080/extra'') = 8080
   \<and> proxy_resolver (Some ''http://h:8080/extra'')
       = \<lparr>useProxy = True, proxyHost = ''h'', proxyPort = 8080\<rparr>"
proof -
  have port: "decimal (takeWhile isdigit ''8080/extra'') = 8080"
    by (simp add: decimal_def isdigit_def digit_val_def)
  then show ?thesis
    using proxy_port_leading_digits [of "''h''" "''8080/extra''"]
    by (simp add: INT_MAX_def)
qed

text \<open>
  Claim C10 as stated fails for a digit sequence that denotes an integer above
  \<open>INT_MAX\<close>, which the \<open>int\<close> port cannot hold: \<open>4294967296\<close> is read as 0 and
  proxying stays disabled. It also fails where \<open>H\<close> holds a colon, as an IPv6 literal
  does: the host ends at the first colon.
\<close>

theorem proxy_port_overflow:
  "decimal (takeWhile isdigit ''4294967296'') = 4294967296
   \<and> proxy_resolver (Some ''http://h:4294967296'')
       = \<lparr>useProxy = False, proxyHost = ''h'', proxyPort = 0\<rparr>
   \<and> proxy_resolver (Some ''http://[::1]:3128'')
       = \<lparr>useProxy = False, proxyHost = ''['', proxyPort = 0\<rparr>"
  by (simp add: proxy_resolver_def strncmp_eq_take atoi_def strtol_def isspace_def
      isdigit_def digit_val_def int_of_long_def LONG_MAX_def decimal_def)

end
